theory Spec2Isabelle
  imports Complex_Main
begin

section \<open>Python strings\<close>

text \<open>
  A Python \<open>str\<close> is modelled as a \<open>string\<close>: one \<open>char\<close> per character, the
  \<open>char\<close> being the character's code point, for text whose code points are below 256.
  The white-space and line-boundary tables are those of Python on these characters.

  \<open>str.upper\<close> follows the Unicode case table, which is not part of the program and
  leads out of these characters (the upper case of \<open>0xFF\<close> is \<open>U+0178\<close>). It is
  therefore a parameter, called \<open>upper\<close>, of every function that calls it, and a field of
  the environment of a run.
\<close>

definition isspace :: "char \<Rightarrow> bool" where
  \<comment> \<open>\<open>str.isspace\<close> on one character: what \<open>strip()\<close> and \<open>split()\<close> remove.\<close>
  "isspace c \<longleftrightarrow> c \<in> set [CHR 0x09, CHR 0x0A, CHR 0x0B, CHR 0x0C, CHR 0x0D,
                            CHR 0x1C, CHR 0x1D, CHR 0x1E, CHR 0x1F, CHR 0x20,
                            CHR 0x85, CHR 0xA0]"

definition islinebreak :: "char \<Rightarrow> bool" where
  \<comment> \<open>The line boundaries of \<open>str.splitlines\<close>.\<close>
  "islinebreak c \<longleftrightarrow> c \<in> set [CHR 0x0A, CHR 0x0B, CHR 0x0C, CHR 0x0D,
                               CHR 0x1C, CHR 0x1D, CHR 0x1E, CHR 0x85]"

definition lstrip :: "string \<Rightarrow> string" where
  "lstrip s = dropWhile isspace s"

definition rstrip :: "string \<Rightarrow> string" where
  "rstrip s = rev (dropWhile isspace (rev s))"

definition strip :: "string \<Rightarrow> string" where
  \<comment> \<open>\<open>s.strip()\<close>\<close>
  "strip s = rstrip (lstrip s)"

definition lower_char :: "char \<Rightarrow> char" where
  \<comment> \<open>The letters \<open>A\<close> to \<open>Z\<close> and the Latin-1 capitals \<open>0xC0\<close> to \<open>0xDE\<close>, without the
      multiplication sign \<open>0xD7\<close>, move down by 32.\<close>
  "lower_char c =
     (let n = (of_char c :: nat)
      in if (65 \<le> n \<and> n \<le> 90) \<or> (192 \<le> n \<and> n \<le> 222 \<and> n \<noteq> 215) then char_of (n + 32)
         else c)"

definition lower :: "string \<Rightarrow> string" where
  \<comment> \<open>\<open>s.lower()\<close>\<close>
  "lower s = map lower_char s"

fun splitlines_from :: "string \<Rightarrow> string \<Rightarrow> string list" where
  \<comment> \<open>\<open>splitlines_from cur rest\<close>: \<open>cur\<close> is the line read so far. A carriage return
      followed by a line feed is one boundary; the last line needs no boundary, and a
      boundary at the very end opens no further line.\<close>
  "splitlines_from cur [] = (if cur = [] then [] else [cur])"
| "splitlines_from cur (c # cs) =
     (if c = CHR 0x0D \<and> cs \<noteq> [] \<and> hd cs = CHR 0x0A then cur # splitlines_from [] (tl cs)
      else if islinebreak c then cur # splitlines_from [] cs
      else splitlines_from (cur @ [c]) cs)"

definition splitlines :: "string \<Rightarrow> string list" where
  \<comment> \<open>\<open>s.splitlines()\<close>\<close>
  "splitlines s = splitlines_from [] s"

fun split_from :: "string \<Rightarrow> string \<Rightarrow> string list" where
  "split_from cur [] = (if cur = [] then [] else [cur])"
| "split_from cur (c # cs) =
     (if isspace c then (if cur = [] then split_from [] cs else cur # split_from [] cs)
      else split_from (cur @ [c]) cs)"

definition split :: "string \<Rightarrow> string list" where
  \<comment> \<open>\<open>s.split()\<close> with no separator: the maximal runs of non-space characters.\<close>
  "split s = split_from [] s"

definition split_colon :: "string \<Rightarrow> string \<times> string" where
  \<comment> \<open>\<open>line.split(":", 1)\<close> on a line that contains a colon: the text before the
      first colon and the text after it.\<close>
  "split_colon line = (takeWhile (\<lambda>c. c \<noteq> CHR '':'') line,
                       tl (dropWhile (\<lambda>c. c \<noteq> CHR '':'') line))"

section \<open>The script parser\<close>

text \<open>A scene is a dictionary with the keys \<open>"character"\<close> and \<open>"text"\<close>; the field \<open>scene_text\<close>
  is the key \<open>"text"\<close>.\<close>

record scene =
  character :: string
  scene_text :: string

text \<open>
  The loop of \<open>parse_script_with_characters\<close> keeps the list \<open>scenes\<close> and the variable
  \<open>current\<close>, which is \<open>None\<close> or a reference to a dictionary that is also an element of
  \<open>scenes\<close>. The reference is modelled as the index of that element, so that the update
  \<open>current["text"] += " " + line\<close> is an update of the list in place.
\<close>

type_synonym parse_state = "scene list \<times> nat option"

definition parse_line :: "(string \<Rightarrow> string) \<Rightarrow> parse_state \<Rightarrow> string \<Rightarrow> parse_state" where
  \<comment> \<open>The body of the loop, lines 56 to 74.\<close>
  "parse_line upper st raw =
     (let scenes = fst st; current = snd st; line = strip raw in
      if line = [] then (scenes, None)
      else if CHR '':'' \<in> set line then
        (let name = upper (strip (fst (split_colon line)));
             t = strip (snd (split_colon line))
         in (scenes @ [\<lparr>character = name, scene_text = t\<rparr>], Some (length scenes)))
      else
        (case current of
           Some k \<Rightarrow> (scenes[k := (scenes ! k)\<lparr>scene_text := scene_text (scenes ! k) @ '' '' @ line\<rparr>], Some k)
         | None \<Rightarrow> (scenes @ [\<lparr>character = ''NARRATOR'', scene_text = line\<rparr>], Some (length scenes))))"

definition parse_lines :: "(string \<Rightarrow> string) \<Rightarrow> string list \<Rightarrow> parse_state" where
  \<comment> \<open>The state of the loop after the given lines.\<close>
  "parse_lines upper ls = foldl (parse_line upper) ([], None) ls"

definition parse_script_with_characters :: "(string \<Rightarrow> string) \<Rightarrow> string \<Rightarrow> scene list" where
  "parse_script_with_characters upper script = fst (parse_lines upper (splitlines script))"

definition scene_of_line :: "(string \<Rightarrow> string) \<Rightarrow> string \<Rightarrow> scene" where
  \<comment> \<open>The dictionary built from a tagged line (lines 62 to 65).\<close>
  "scene_of_line upper l = \<lparr>character = upper (strip (fst (split_colon l))),
                       scene_text = strip (snd (split_colon l))\<rparr>"

section \<open>Paths and numbers\<close>

definition TMP_DIR :: string where
  "TMP_DIR = ''tmp''"

definition OUTPUT_DIR :: string where
  "OUTPUT_DIR = ''outputs''"

definition path_join :: "string \<Rightarrow> string \<Rightarrow> string" where
  \<comment> \<open>\<open>os.path.join(a, b)\<close> of \<open>posixpath\<close>.\<close>
  "path_join a b =
     (if b \<noteq> [] \<and> hd b = CHR ''/'' then b
      else if a = [] \<or> last a = CHR ''/'' then a @ b
      else a @ ''/'' @ b)"

definition splitext_ext :: "string \<Rightarrow> string" where
  \<comment> \<open>\<open>os.path.splitext(p)[1]\<close> of \<open>posixpath\<close>: the extension starts at the last dot of
      the last path component, unless only dots precede it there.\<close>
  "splitext_ext p =
     (let b = rev (takeWhile (\<lambda>c. c \<noteq> CHR ''/'') (rev p));
          suffix = rev (takeWhile (\<lambda>c. c \<noteq> CHR ''.'') (rev b));
          stem = take (length b - length suffix - 1) b
      in if CHR ''.'' \<in> set b \<and> (\<exists>c\<in>set stem. c \<noteq> CHR ''.'') then CHR ''.'' # suffix else [])"

fun str_nat :: "nat \<Rightarrow> string" where
  \<comment> \<open>The decimal digits of a number, as an f-string prints it.\<close>
  "str_nat n =
     (if n < 10 then [char_of (48 + n)] else str_nat (n div 10) @ [char_of (48 + n mod 10)])"

declare str_nat.simps [simp del]

definition py_int :: "rat \<Rightarrow> int" where
  \<comment> \<open>\<open>int(x)\<close> truncates towards zero.\<close>
  "py_int x = (if 0 \<le> x then \<lfloor>x\<rfloor> else \<lceil>x\<rceil>)"

text \<open>
  The quotients \<open>len(words)/2.5\<close> and \<open>20*(i+1)/n\<close> are binary floating point numbers
  in Python. Both are modelled by the exact rational quotient: the divisions are correctly
  rounded, and an exact quotient of this form is either an integer or at least \<open>1/5\<close>
  (respectively \<open>1/n\<close>) away from one, so for the sizes a script can have the integer
  part is the same.
\<close>

definition scene_duration :: "string \<Rightarrow> int" where
  \<comment> \<open>\<open>int(max(4, len(sc["text"].split())/2.5))\<close>, lines 230, 232 and 249.\<close>
  "scene_duration t = py_int (max 4 (rat_of_nat (length (split t)) / (5 / 2)))"

definition band_progress :: "int \<Rightarrow> int \<Rightarrow> nat \<Rightarrow> nat \<Rightarrow> int" where
  \<comment> \<open>\<open>base + int(width * (i+1)/max(1,len(scenes)))\<close>, lines 210 and 257.\<close>
  "band_progress base width i n =
     base + py_int (of_int width * rat_of_nat (i + 1) / rat_of_nat (max 1 n))"

definition select_asset :: "nat \<Rightarrow> string list \<Rightarrow> string list \<Rightarrow> string option" where
  \<comment> \<open>Lines 218 to 222: \<open>asset\<close> stays \<open>None\<close> when both lists are empty.\<close>
  "select_asset i images clips =
     (if images \<noteq> [] then Some (images ! (i mod length images))
      else if clips \<noteq> [] then Some (clips ! (i mod length clips))
      else None)"

section \<open>Job records\<close>

datatype job_status = Pending | Running | Done | Error

text \<open>
  A job record is the dictionary \<open>JOB_STORE[job_id]\<close>; the status strings \<open>"pending"\<close>,
  \<open>"running"\<close>, \<open>"done"\<close> and \<open>"error"\<close> are the four constructors. The field \<open>job_file\<close> is the key \<open>"file"\<close>. A field that is
  \<open>None\<close> or, for \<open>error\<close>, a missing key, is \<open>None\<close>.
\<close>

record job =
  status :: job_status
  progress :: int
  job_file :: "string option"
  preview :: "string option"
  error :: "string option"

definition new_job :: job where
  \<comment> \<open>Line 301.\<close>
  "new_job = \<lparr>status = Pending, progress = 0, job_file = None, preview = None, error = None\<rparr>"

section \<open>Stages and traces\<close>

text \<open>
  The speech synthesiser, the encoder and the image library are outside the program. A call
  to one of them is a value of type \<open>call\<close>: the function called with its arguments.
\<close>

datatype call =
    GttsSave string string string
  | ClipTrimOrLoop string string int string int
  | ImageToVideo string string int string int
  | TextSlide string string string
  | MuxVideoWithAudio string string string
  | ConcatVideos "string list" string
  | GeneratePreview string string int string

text \<open>
  \<open>GttsSave text out_path lang\<close> is the body of \<open>synthesize_with_gtts\<close>;
  \<open>ClipTrimOrLoop input_clip out_clip duration resolution fps\<close>,
  \<open>ImageToVideo image_path out_video duration resolution fps\<close>,
  \<open>MuxVideoWithAudio video_in audio_in out_path\<close> and
  \<open>GeneratePreview full_video_path preview_path preview_seconds res\<close> are the bodies of the
  functions of these names; \<open>ConcatVideos video_list out_path\<close> is the body of
  \<open>concat_videos\<close> after its guard; \<open>TextSlide resolution text tmp_img\<close> is the drawing of
  the text slide, lines 236 to 248.

  What such a call does is given by the environment: it changes the world (the file system,
  of a type \<open>'w\<close> left open) and either returns or raises an exception \<open>e\<close>, an instance
  of \<open>Exception\<close>, of which the program only uses \<open>str(e)\<close>. The environment also
  holds what else the program takes from outside: whether a path exists, the voice map (a
  global that may be changed while the program runs) and \<open>str.upper\<close>.
\<close>

record 'w env =
  run_call :: "call \<Rightarrow> 'w \<Rightarrow> string option \<times> 'w"
  path_exists :: "string \<Rightarrow> 'w \<Rightarrow> bool"
  CHAR_VOICE_MAP :: "string \<rightharpoonup> string"
  str_upper :: "string \<Rightarrow> string"

definition CHAR_VOICE_MAP_initial :: "string \<rightharpoonup> string" where
  \<comment> \<open>Lines 32 to 35.\<close>
  "CHAR_VOICE_MAP_initial = [''NARRATOR'' \<mapsto> ''gtts_en'']"

text \<open>
  A run is described by the events it produces, in order: the writes to the job record, the
  calls of the stages, the exceptions raised inside the \<open>try\<close> block, and the points where
  the coroutine hands control back to the event loop.
\<close>

datatype event =
    SetStatus job_status
  | SetProgress int
  | SetFile string
  | SetPreview string
  | SetError string
  | Stage call
  | Raise string
  | Yield

type_synonym ('a, 'w) outcome = "(string + 'a) \<times> 'w \<times> event list"

type_synonym ('a, 'w) prog = "'w \<Rightarrow> ('a, 'w) outcome"

definition return :: "'a \<Rightarrow> ('a, 'w) prog" where
  "return x w = (Inr x, w, [])"

definition raise :: "string \<Rightarrow> ('a, 'w) prog" where
  "raise e w = (Inl e, w, [Raise e])"

definition emit :: "event list \<Rightarrow> (unit, 'w) prog" where
  "emit evs w = (Inr (), w, evs)"

definition and_then :: "('a, 'w) prog \<Rightarrow> ('a \<Rightarrow> ('b, 'w) prog) \<Rightarrow> ('b, 'w) prog" where
  \<comment> \<open>One statement after another: an exception of the first skips the second.\<close>
  "and_then m f w =
     (case m w of
        (Inl e, w', evs) \<Rightarrow> (Inl e, w', evs)
      | (Inr x, w', evs) \<Rightarrow> (case f x w' of (r, w'', evs') \<Rightarrow> (r, w'', evs @ evs')))"

definition stage :: "'w env \<Rightarrow> call \<Rightarrow> (unit, 'w) prog" where
  "stage E c w =
     (case run_call E c w of
        (None, w') \<Rightarrow> (Inr (), w', [Stage c])
      | (Some e, w') \<Rightarrow> (Inl e, w', [Stage c, Raise e]))"

definition py_index :: "'a list \<Rightarrow> nat \<Rightarrow> ('a, 'w) prog" where
  \<comment> \<open>\<open>xs[i]\<close> for \<open>i \<ge> 0\<close>\<close>
  "py_index xs i = (if i < length xs then return (xs ! i) else raise ''list index out of range'')"

section \<open>Speech synthesis\<close>

definition synthesize_with_gtts :: "'w env \<Rightarrow> string \<Rightarrow> string \<Rightarrow> string \<Rightarrow> (string, 'w) prog" where
  "synthesize_with_gtts E t out_path lang =
     and_then (stage E (GttsSave t out_path lang)) (\<lambda>_. return out_path)"

definition startswith :: "string \<Rightarrow> string \<Rightarrow> bool" where
  "startswith s p \<longleftrightarrow> take (length p) s = p"

definition synthesize_character_voice ::
  "'w env \<Rightarrow> string \<Rightarrow> string \<Rightarrow> string \<Rightarrow> (string, 'w) prog" where
  "synthesize_character_voice E chr t out_path =
     (let provider = (case CHAR_VOICE_MAP E (str_upper E chr) of Some p \<Rightarrow> p | None \<Rightarrow> ''gtts_en'') in
      if startswith provider ''gtts'' then
        and_then (synthesize_with_gtts E t out_path ''en'') (\<lambda>_. return out_path)
      else
        and_then (synthesize_with_gtts E t out_path ''en'') (\<lambda>_. return out_path))"

section \<open>The stages of the worker\<close>

definition concat_videos :: "'w env \<Rightarrow> string list \<Rightarrow> string \<Rightarrow> (string, 'w) prog" where
  "concat_videos E video_list out_path =
     (if video_list = [] then raise ''No videos to concat''
      else and_then (stage E (ConcatVideos video_list out_path)) (\<lambda>_. return out_path))"

definition generate_preview ::
  "'w env \<Rightarrow> string \<Rightarrow> string \<Rightarrow> int \<Rightarrow> string \<Rightarrow> (string, 'w) prog" where
  "generate_preview E full_video_path preview_path preview_seconds res =
     and_then (stage E (GeneratePreview full_video_path preview_path preview_seconds res))
       (\<lambda>_. return preview_path)"

definition scene_file :: "string \<Rightarrow> nat \<Rightarrow> string \<Rightarrow> string" where
  \<comment> \<open>\<open>os.path.join(TMP_DIR, f"{job_id}_scene_{i}_<kind>")\<close>\<close>
  "scene_file job_id i kind = path_join TMP_DIR (job_id @ ''_scene_'' @ str_nat i @ ''_'' @ kind)"

definition video_exts :: "string list" where
  "video_exts = [''.mp4'', ''.mov'', ''.webm'', ''.mkv'', ''.avi'']"

definition render_scene_video ::
  "'w env \<Rightarrow> string \<Rightarrow> nat \<Rightarrow> scene \<Rightarrow> string option \<Rightarrow> string \<Rightarrow> int \<Rightarrow> (string, 'w) prog" where
  \<comment> \<open>Lines 224 to 249: the silent video of scene \<open>i\<close>, from the asset or from a text slide.\<close>
  "render_scene_video E job_id i sc asset resolution fps w =
     (let tmp_scene_vid = scene_file job_id i ''video.mp4'';
          duration = scene_duration (scene_text sc)
      in case asset of
           Some a \<Rightarrow>
             if a \<noteq> [] \<and> path_exists E a w then
               (if lower (splitext_ext a) \<in> set video_exts then
                  and_then (stage E (ClipTrimOrLoop a tmp_scene_vid duration resolution fps))
                    (\<lambda>_. return tmp_scene_vid) w
                else
                  and_then (stage E (ImageToVideo a tmp_scene_vid duration resolution fps))
                    (\<lambda>_. return tmp_scene_vid) w)
             else
               (let tmp_img = scene_file job_id i ''img.png'' in
                and_then (stage E (TextSlide resolution (take 200 (scene_text sc)) tmp_img)) (\<lambda>_.
                and_then (stage E (ImageToVideo tmp_img tmp_scene_vid duration resolution fps))
                  (\<lambda>_. return tmp_scene_vid)) w)
         | None \<Rightarrow>
               (let tmp_img = scene_file job_id i ''img.png'' in
                and_then (stage E (TextSlide resolution (take 200 (scene_text sc)) tmp_img)) (\<lambda>_.
                and_then (stage E (ImageToVideo tmp_img tmp_scene_vid duration resolution fps))
                  (\<lambda>_. return tmp_scene_vid)) w))"

definition tts_step :: "'w env \<Rightarrow> string \<Rightarrow> nat \<Rightarrow> nat \<Rightarrow> scene \<Rightarrow> (string, 'w) prog" where
  \<comment> \<open>The body of the loop of lines 203 to 210, for scene \<open>i\<close> of \<open>n\<close>.\<close>
  "tts_step E job_id n i sc =
     (let aud_path = scene_file job_id i ''audio.mp3'' in
      and_then (synthesize_character_voice E (character sc) (scene_text sc) aud_path) (\<lambda>_.
      and_then (emit [SetProgress (band_progress 15 20 i n)]) (\<lambda>_.
      return aud_path)))"

fun tts_loop ::
  "'w env \<Rightarrow> string \<Rightarrow> nat \<Rightarrow> nat \<Rightarrow> scene list \<Rightarrow> string list \<Rightarrow> (string list, 'w) prog" where
  "tts_loop E job_id n i [] scene_audio_files w = (Inr scene_audio_files, w, [])"
| "tts_loop E job_id n i (sc # scs) scene_audio_files w =
     (case tts_step E job_id n i sc w of
        (Inl e, w', evs) \<Rightarrow> (Inl e, w', evs)
      | (Inr aud_path, w', evs) \<Rightarrow>
          (case tts_loop E job_id n (Suc i) scs (scene_audio_files @ [aud_path]) w' of
             (r, w'', evs') \<Rightarrow> (r, w'', evs @ evs')))"

definition video_step ::
  "'w env \<Rightarrow> string \<Rightarrow> string list \<Rightarrow> string list \<Rightarrow> string \<Rightarrow> int \<Rightarrow> string list
     \<Rightarrow> nat \<Rightarrow> nat \<Rightarrow> scene \<Rightarrow> (string, 'w) prog" where
  \<comment> \<open>The body of the loop of lines 216 to 257, for scene \<open>i\<close> of \<open>n\<close>.\<close>
  "video_step E job_id images clips resolution fps scene_audio_files n i sc =
     (let asset = select_asset i images clips in
      and_then (render_scene_video E job_id i sc asset resolution fps) (\<lambda>tmp_scene_vid.
      and_then (py_index scene_audio_files i) (\<lambda>tmp_scene_audio.
      let tmp_scene_with_audio = scene_file job_id i ''final.mp4'' in
      and_then (stage E (MuxVideoWithAudio tmp_scene_vid tmp_scene_audio tmp_scene_with_audio)) (\<lambda>_.
      and_then (emit [SetProgress (band_progress 40 30 i n)]) (\<lambda>_.
      return tmp_scene_with_audio)))))"

fun video_loop ::
  "'w env \<Rightarrow> string \<Rightarrow> string list \<Rightarrow> string list \<Rightarrow> string \<Rightarrow> int \<Rightarrow> string list
     \<Rightarrow> nat \<Rightarrow> nat \<Rightarrow> scene list \<Rightarrow> string list \<Rightarrow> (string list, 'w) prog" where
  "video_loop E job_id images clips resolution fps auds n i [] scene_video_files w =
     (Inr scene_video_files, w, [])"
| "video_loop E job_id images clips resolution fps auds n i (sc # scs) scene_video_files w =
     (case video_step E job_id images clips resolution fps auds n i sc w of
        (Inl e, w', evs) \<Rightarrow> (Inl e, w', evs)
      | (Inr v, w', evs) \<Rightarrow>
          (case video_loop E job_id images clips resolution fps auds n (Suc i) scs
                  (scene_video_files @ [v]) w' of
             (r, w'', evs') \<Rightarrow> (r, w'', evs @ evs')))"

definition out_file_of :: "string \<Rightarrow> string \<Rightarrow> string" where
  \<comment> \<open>Line 261.\<close>
  "out_file_of title job_id = path_join OUTPUT_DIR (title @ ''_'' @ job_id @ ''.mp4'')"

definition preview_path_of :: "string \<Rightarrow> string \<Rightarrow> string" where
  \<comment> \<open>Line 267.\<close>
  "preview_path_of title job_id = path_join OUTPUT_DIR (title @ ''_'' @ job_id @ ''_preview.mp4'')"

definition render_stages ::
  "'w env \<Rightarrow> string \<Rightarrow> string \<Rightarrow> string list \<Rightarrow> string list \<Rightarrow> string \<Rightarrow> string \<Rightarrow> int
     \<Rightarrow> (unit, 'w) prog" where
  \<comment> \<open>Lines 196 to 268: everything in the \<open>try\<close> block that can raise.\<close>
  "render_stages E job_id script images clips title resolution fps =
     (let scenes = parse_script_with_characters (str_upper E) script in
      and_then (emit [SetProgress 10, SetProgress 15]) (\<lambda>_.
      and_then (tts_loop E job_id (length scenes) 0 scenes []) (\<lambda>scene_audio_files.
      and_then (emit [SetProgress 40]) (\<lambda>_.
      and_then (video_loop E job_id images clips resolution fps scene_audio_files
                  (length scenes) 0 scenes []) (\<lambda>scene_video_files.
      and_then (emit [SetProgress 75]) (\<lambda>_.
      and_then (concat_videos E scene_video_files (out_file_of title job_id)) (\<lambda>_.
      and_then (emit [SetProgress 88]) (\<lambda>_.
      and_then (generate_preview E (out_file_of title job_id) (preview_path_of title job_id)
                  15 ''640x360'') (\<lambda>_.
      return ())))))))))"

definition worker_render_movie ::
  "'w env \<Rightarrow> string \<Rightarrow> string \<Rightarrow> string list \<Rightarrow> string list \<Rightarrow> string \<Rightarrow> string \<Rightarrow> int
     \<Rightarrow> 'w \<Rightarrow> event list" where
  \<comment> \<open>The events of one run: line 194, the \<open>try\<close> block, then lines 269 to 273 or the
      handler, lines 279 to 281.\<close>
  "worker_render_movie E job_id script images clips title resolution fps w =
     (case render_stages E job_id script images clips title resolution fps w of
        (Inr _, w', evs) \<Rightarrow>
          [SetProgress 5] @ evs @
          [SetPreview (preview_path_of title job_id), SetFile (out_file_of title job_id),
           SetProgress 100, SetStatus Done]
      | (Inl e, w', evs) \<Rightarrow>
          [SetProgress 5] @ evs @ [SetStatus Error, SetError e, SetProgress 0])"

definition job_events ::
  "'w env \<Rightarrow> string \<Rightarrow> string \<Rightarrow> string list \<Rightarrow> string list \<Rightarrow> string \<Rightarrow> string \<Rightarrow> int
     \<Rightarrow> 'w \<Rightarrow> event list" where
  \<comment> \<open>The life of a job after line 301: the endpoint saves the uploads (awaiting each),
      marks the job running, lines 323 and 324, and schedules the worker, which runs once the
      endpoint has returned.\<close>
  "job_events E job_id script images clips title resolution fps w =
     [Yield, SetStatus Running, SetProgress 1, Yield]
     @ worker_render_movie E job_id script images clips title resolution fps w"

section \<open>The job record along a run\<close>

fun apply_event :: "job \<Rightarrow> event \<Rightarrow> job" where
  "apply_event j (SetStatus s) = j\<lparr>status := s\<rparr>"
| "apply_event j (SetProgress n) = j\<lparr>progress := n\<rparr>"
| "apply_event j (SetFile p) = j\<lparr>job_file := Some p\<rparr>"
| "apply_event j (SetPreview p) = j\<lparr>preview := Some p\<rparr>"
| "apply_event j (SetError e) = j\<lparr>error := Some e\<rparr>"
| "apply_event j (Stage c) = j"
| "apply_event j (Raise e) = j"
| "apply_event j Yield = j"

definition run_events :: "job \<Rightarrow> event list \<Rightarrow> job" where
  \<comment> \<open>The job record after the events.\<close>
  "run_events j evs = foldl apply_event j evs"

fun observed :: "job \<Rightarrow> event list \<Rightarrow> job list" where
  \<comment> \<open>The job records a poll can read: the record whenever the run is inside a stage
      or has handed control back, and the record at the end. The program runs on one event
      loop, so between two such points nothing else runs.\<close>
  "observed j [] = [j]"
| "observed j (Stage c # evs) = j # observed j evs"
| "observed j (Yield # evs) = j # observed j evs"
| "observed j (ev # evs) = observed (apply_event j ev) evs"

fun running_writes :: "job_status \<Rightarrow> event list \<Rightarrow> int list" where
  \<comment> \<open>The values written to \<open>progress\<close> while the status, at first \<open>s\<close>, is \<open>Running\<close>.\<close>
  "running_writes s [] = []"
| "running_writes s (SetStatus s' # evs) = running_writes s' evs"
| "running_writes s (SetProgress n # evs) =
     (if s = Running then n # running_writes s evs else running_writes s evs)"
| "running_writes s (ev # evs) = running_writes s evs"

section \<open>Retrieval\<close>

datatype response = JSONResponse nat string | FileResponse string | JobResponse job

definition truthy :: "string option \<Rightarrow> bool" where
  \<comment> \<open>The truth value of \<open>job.get(key)\<close>: neither \<open>None\<close> nor the empty string.\<close>
  "truthy v \<longleftrightarrow> (case v of None \<Rightarrow> False | Some p \<Rightarrow> p \<noteq> [])"

definition status_endpoint :: "(string \<rightharpoonup> job) \<Rightarrow> string \<Rightarrow> response" where
  "status_endpoint JOB_STORE job_id =
     (case JOB_STORE job_id of
        None \<Rightarrow> JSONResponse 404 ''job not found''
      | Some j \<Rightarrow> JobResponse j)"

definition download_endpoint :: "(string \<rightharpoonup> job) \<Rightarrow> string \<Rightarrow> response" where
  "download_endpoint JOB_STORE job_id =
     (case JOB_STORE job_id of
        None \<Rightarrow> JSONResponse 404 ''file not ready''
      | Some j \<Rightarrow> if \<not> truthy (job_file j) then JSONResponse 404 ''file not ready''
                  else FileResponse (the (job_file j)))"

definition preview_endpoint :: "(string \<rightharpoonup> job) \<Rightarrow> string \<Rightarrow> response" where
  "preview_endpoint JOB_STORE job_id =
     (case JOB_STORE job_id of
        None \<Rightarrow> JSONResponse 404 ''preview not ready''
      | Some j \<Rightarrow> if \<not> truthy (preview j) then JSONResponse 404 ''preview not ready''
                  else FileResponse (the (preview j)))"

section \<open>Reading an outcome\<close>

definition result_of :: "('a, 'w) outcome \<Rightarrow> string + 'a" where
  "result_of r = fst r"

definition world_of :: "('a, 'w) outcome \<Rightarrow> 'w" where
  "world_of r = fst (snd r)"

definition events_of :: "('a, 'w) outcome \<Rightarrow> event list" where
  "events_of r = snd (snd r)"

definition asset_call :: "string \<Rightarrow> string \<Rightarrow> int \<Rightarrow> string \<Rightarrow> int \<Rightarrow> call" where
  \<comment> \<open>The call that renders an existing asset, lines 227 to 232: by its extension.\<close>
  "asset_call a out d resolution fps =
     (if lower (splitext_ext a) \<in> set video_exts then ClipTrimOrLoop a out d resolution fps
      else ImageToVideo a out d resolution fps)"

definition call_duration :: "call \<Rightarrow> int option" where
  \<comment> \<open>The \<open>duration\<close> argument of a call that has one.\<close>
  "call_duration c =
     (case c of
        ClipTrimOrLoop a out d r f \<Rightarrow> Some d
      | ImageToVideo a out d r f \<Rightarrow> Some d
      | _ \<Rightarrow> None)"

section \<open>Sample environments\<close>

definition upper_latin1_char :: "char \<Rightarrow> string" where
  "upper_latin1_char c =
     (let n = (of_char c :: nat)
      in if (97 \<le> n \<and> n \<le> 122) \<or> (224 \<le> n \<and> n \<le> 254 \<and> n \<noteq> 247) then [char_of (n - 32)]
         else if n = 223 then ''SS''
         else [c])"

definition upper_latin1 :: "string \<Rightarrow> string" where
  \<comment> \<open>The case table the samples run with: what \<open>str.upper\<close> does on text of the
      characters below 256 other than \<open>0xB5\<close> and \<open>0xFF\<close>, whose upper case is not among
      these characters. The sharp s, \<open>0xDF\<close>, becomes two letters.\<close>
  "upper_latin1 s = concat (map upper_latin1_char s)"

definition env_ok :: "unit env" where
  \<comment> \<open>Every call returns; no asset path exists; the voice map is the initial one.\<close>
  "env_ok = \<lparr>run_call = (\<lambda>c w. (None, w)), path_exists = (\<lambda>p w. False),
             CHAR_VOICE_MAP = CHAR_VOICE_MAP_initial, str_upper = upper_latin1\<rparr>"

definition env_files :: "unit env" where
  \<comment> \<open>As \<open>env_ok\<close>, but every asset path exists.\<close>
  "env_files = \<lparr>run_call = (\<lambda>c w. (None, w)), path_exists = (\<lambda>p w. True),
                CHAR_VOICE_MAP = CHAR_VOICE_MAP_initial, str_upper = upper_latin1\<rparr>"

definition env_voices :: "unit env" where
  \<comment> \<open>As \<open>env_ok\<close>, with a second voice registered as line 34 suggests.\<close>
  "env_voices = \<lparr>run_call = (\<lambda>c w. (None, w)), path_exists = (\<lambda>p w. False),
                 CHAR_VOICE_MAP = [''NARRATOR'' \<mapsto> ''gtts_en'', ''ALICE'' \<mapsto> ''eleven_alice''],
                 str_upper = upper_latin1\<rparr>"

definition env_mux_fails :: "unit env" where
  \<comment> \<open>As \<open>env_ok\<close>, but the encoder fails when it attaches the audio.\<close>
  "env_mux_fails =
     \<lparr>run_call = (\<lambda>c w. case c of MuxVideoWithAudio v a out \<Rightarrow> (Some ''encoder failed'', w)
                                  | _ \<Rightarrow> (None, w)),
      path_exists = (\<lambda>p w. False), CHAR_VOICE_MAP = CHAR_VOICE_MAP_initial,
      str_upper = upper_latin1\<rparr>"

section \<open>Shapes of traces\<close>

fun progress_writes :: "event list \<Rightarrow> int list" where
  \<comment> \<open>The values written to \<open>progress\<close>, in order.\<close>
  "progress_writes [] = []"
| "progress_writes (SetProgress n # evs) = n # progress_writes evs"
| "progress_writes (ev # evs) = progress_writes evs"

fun is_plain :: "event \<Rightarrow> bool" where
  \<comment> \<open>The events of the stages: calls, progress writes and a raised exception.\<close>
  "is_plain (Stage c) = True"
| "is_plain (SetProgress n) = True"
| "is_plain (Raise e) = True"
| "is_plain ev = False"

fun is_raise :: "event \<Rightarrow> bool" where
  "is_raise (Raise e) = True"
| "is_raise ev = False"

definition band :: "int \<Rightarrow> int \<Rightarrow> event list \<Rightarrow> bool" where
  \<comment> \<open>Stage events whose progress writes ascend within \<open>lo\<close> and \<open>hi\<close>.\<close>
  "band lo hi evs \<longleftrightarrow>
     lo \<le> hi \<and> list_all is_plain evs \<and> sorted (progress_writes evs)
     \<and> list_all (\<lambda>n. lo \<le> n \<and> n \<le> hi) (progress_writes evs)"

definition raised_last :: "('a, 'w) outcome \<Rightarrow> bool" where
  \<comment> \<open>An outcome raises exactly when its last event is that exception, and nothing is
      raised before.\<close>
  "raised_last r \<longleftrightarrow>
     (case result_of r of
        Inr x \<Rightarrow> \<not> list_ex is_raise (events_of r)
      | Inl e \<Rightarrow> events_of r \<noteq> [] \<and> last (events_of r) = Raise e
                 \<and> \<not> list_ex is_raise (butlast (events_of r)))"

definition ok :: "int \<Rightarrow> int \<Rightarrow> ('a, 'w) prog \<Rightarrow> bool" where
  "ok lo hi m \<longleftrightarrow> (\<forall>w. band lo hi (events_of (m w)) \<and> raised_last (m w))"

definition running_record :: "job \<Rightarrow> bool" where
  \<comment> \<open>A job record as it is while its run is between line 324 and line 269.\<close>
  "running_record j \<longleftrightarrow>
     status j = Running \<and> job_file j = None \<and> preview j = None \<and> error j = None
     \<and> 0 \<le> progress j \<and> progress j < 100"

fun sets_artifact :: "event \<Rightarrow> bool" where
  \<comment> \<open>The writes of lines 269, 271 and 273.\<close>
  "sets_artifact (SetFile p) = True"
| "sets_artifact (SetPreview p) = True"
| "sets_artifact (SetStatus s) = (s = Done)"
| "sets_artifact ev = False"

definition prelude :: "event list" where
  \<comment> \<open>What precedes the \<open>try\<close> block: the endpoint's part and line 194.\<close>
  "prelude = [Yield, SetStatus Running, SetProgress 1, Yield, SetProgress 5]"

definition done_block :: "string \<Rightarrow> string \<Rightarrow> event list" where
  \<comment> \<open>Lines 269 to 273.\<close>
  "done_block title job_id =
     [SetPreview (preview_path_of title job_id), SetFile (out_file_of title job_id),
      SetProgress 100, SetStatus Done]"

definition error_block :: "string \<Rightarrow> event list" where
  \<comment> \<open>The handler, lines 279 to 281.\<close>
  "error_block e = [SetStatus Error, SetError e, SetProgress 0]"

definition record_shape :: "string \<Rightarrow> string \<Rightarrow> job \<Rightarrow> bool" where
  \<comment> \<open>The four shapes of a job record: new, running, done, failed.\<close>
  "record_shape title job_id j \<longleftrightarrow>
     j = new_job \<or> running_record j
     \<or> (status j = Done \<and> progress j = 100 \<and> error j = None
        \<and> job_file j = Some (out_file_of title job_id)
        \<and> preview j = Some (preview_path_of title job_id))
     \<or> (status j = Error \<and> progress j = 0 \<and> error j \<noteq> None
        \<and> job_file j = None \<and> preview j = None)"

section \<open>Facts about trimming\<close>

lemma not_isspace_colon: "\<not> isspace (CHR '':'')"
  by (simp add: isspace_def)

lemma rstrip_Cons:
  "rstrip (c # b) = (if (\<forall>x\<in>set (c # b). isspace x) then [] else c # rstrip b)"
  by (auto simp: rstrip_def dropWhile_append)

lemma lstrip_Cons: "lstrip (c # b) = (if isspace c then lstrip b else c # b)"
  by (simp add: lstrip_def)

lemma lstrip_all_space: "(\<forall>x\<in>set b. isspace x) \<Longrightarrow> lstrip b = []"
  by (simp add: lstrip_def)

lemma rstrip_Nil: "rstrip [] = []"
  by (simp add: rstrip_def)

lemma lstrip_Nil: "lstrip [] = []"
  by (simp add: lstrip_def)

lemma set_rstrip_subset: "set (rstrip b) \<subseteq> set b"
  by (induction b) (auto simp: rstrip_Cons rstrip_Nil)

lemma set_lstrip_subset: "set (lstrip a) \<subseteq> set a"
  by (auto simp: lstrip_def dest: set_dropWhileD)

lemma set_strip_subset: "set (strip a) \<subseteq> set a"
  unfolding strip_def using set_lstrip_subset set_rstrip_subset by blast

lemma lstrip_rstrip: "lstrip (rstrip b) = rstrip (lstrip b)"
proof (induction b)
  case Nil
  show ?case by (simp add: rstrip_Nil lstrip_Nil)
next
  case (Cons c b)
  show ?case
  proof (cases "\<forall>x\<in>set (c # b). isspace x")
    case True
    then show ?thesis
      using Cons by (simp add: rstrip_Cons lstrip_Cons lstrip_Nil lstrip_all_space rstrip_Nil)
  next
    case False
    then show ?thesis
      using Cons by (auto simp add: rstrip_Cons lstrip_Cons)
  qed
qed

lemma rstrip_idem: "rstrip (rstrip b) = rstrip b"
  by (simp add: rstrip_def)

lemma lstrip_idem: "lstrip (lstrip b) = lstrip b"
  by (simp add: lstrip_def)

lemma strip_lstrip: "strip (lstrip b) = strip b"
  by (simp add: strip_def lstrip_idem)

lemma strip_rstrip: "strip (rstrip b) = strip b"
  by (simp add: strip_def lstrip_rstrip rstrip_idem)


lemma strip_Nil: "strip [] = []"
  by (simp add: strip_def lstrip_def rstrip_def)


lemma strip_colon_split:
  assumes "CHR '':'' \<notin> set a"
  shows "strip (a @ CHR '':'' # b) = lstrip a @ CHR '':'' # rstrip b"
proof -
  have l: "lstrip (a @ CHR '':'' # b) = lstrip a @ CHR '':'' # b"
    unfolding lstrip_def by (rule dropWhile_append3) (rule not_isspace_colon)
  have "dropWhile isspace (rev b @ CHR '':'' # rev (lstrip a))
        = dropWhile isspace (rev b) @ CHR '':'' # rev (lstrip a)"
    by (rule dropWhile_append3) (rule not_isspace_colon)
  then have r: "rstrip (lstrip a @ CHR '':'' # b) = lstrip a @ CHR '':'' # rstrip b"
    by (simp add: rstrip_def)
  show ?thesis by (simp add: strip_def l r)
qed

lemma split_colon_strip:
  assumes "CHR '':'' \<in> set l"
  shows "strip (fst (split_colon (strip l))) = strip (fst (split_colon l))"
    and "strip (snd (split_colon (strip l))) = strip (snd (split_colon l))"
proof -
  from assms obtain a b where l: "l = a @ CHR '':'' # b" and a: "CHR '':'' \<notin> set a"
    by (auto dest: split_list_first)
  have a': "CHR '':'' \<notin> set (lstrip a)"
    using a set_lstrip_subset by blast
  have s: "strip l = lstrip a @ CHR '':'' # rstrip b"
    by (simp add: l strip_colon_split a)
  have t1: "takeWhile (\<lambda>c. c \<noteq> CHR '':'') (lstrip a @ CHR '':'' # rstrip b) = lstrip a"
    using a' by (auto simp: takeWhile_tail)
  have d1: "dropWhile (\<lambda>c. c \<noteq> CHR '':'') (lstrip a @ CHR '':'' # rstrip b) = CHR '':'' # rstrip b"
    using a' by (auto simp: dropWhile_append3)
  have t2: "takeWhile (\<lambda>c. c \<noteq> CHR '':'') (a @ CHR '':'' # b) = a"
    using a by (auto simp: takeWhile_tail)
  have d2: "dropWhile (\<lambda>c. c \<noteq> CHR '':'') (a @ CHR '':'' # b) = CHR '':'' # b"
    using a by (auto simp: dropWhile_append3)
  have f1: "fst (split_colon (strip l)) = lstrip a" and s1: "snd (split_colon (strip l)) = rstrip b"
    by (simp_all add: split_colon_def s t1 d1)
  have f2: "fst (split_colon l) = a" and s2: "snd (split_colon l) = b"
    by (simp_all add: split_colon_def l t2 d2)
  show "strip (fst (split_colon (strip l))) = strip (fst (split_colon l))"
    by (simp only: f1 f2 strip_lstrip)
  show "strip (snd (split_colon (strip l))) = strip (snd (split_colon l))"
    by (simp only: s1 s2 strip_rstrip)
qed

lemma colon_in_strip_iff: "CHR '':'' \<in> set (strip l) \<longleftrightarrow> CHR '':'' \<in> set l"
proof
  assume "CHR '':'' \<in> set (strip l)"
  then show "CHR '':'' \<in> set l" using set_strip_subset by blast
next
  assume "CHR '':'' \<in> set l"
  then obtain a b where l: "l = a @ CHR '':'' # b" and a: "CHR '':'' \<notin> set a"
    by (auto dest: split_list_first)
  show "CHR '':'' \<in> set (strip l)"
    by (simp add: l strip_colon_split a)
qed

section \<open>The parser\<close>

lemma parse_lines_snoc: "parse_lines upper (ls @ [l]) = parse_line upper (parse_lines upper ls) l"
  by (simp add: parse_lines_def)

lemma parse_lines_Nil: "parse_lines upper [] = ([], None)"
  by (simp add: parse_lines_def)

lemma parse_lines_current:
  "snd (parse_lines upper ls) =
     (if ls = [] \<or> strip (last ls) = [] then None else Some (length (fst (parse_lines upper ls)) - 1))
   \<and> (snd (parse_lines upper ls) \<noteq> None \<longrightarrow> fst (parse_lines upper ls) \<noteq> [])"
proof (induction ls rule: rev_induct)
  case Nil
  show ?case by (simp add: parse_lines_Nil)
next
  case (snoc l ls)
  then show ?case
    by (auto simp: parse_lines_snoc parse_line_def Let_def split: option.splits)
qed

lemma parse_lines_tagged:
  assumes "\<forall>l\<in>set ls. strip l \<noteq> [] \<longrightarrow> CHR '':'' \<in> set l"
  shows "fst (parse_lines upper ls) = map (scene_of_line upper) (filter (\<lambda>l. strip l \<noteq> []) ls)"
  using assms
proof (induction ls rule: rev_induct)
  case Nil
  show ?case by (simp add: parse_lines_Nil)
next
  case (snoc l ls)
  then show ?case
    by (auto simp: parse_lines_snoc parse_line_def Let_def colon_in_strip_iff
        scene_of_line_def split_colon_strip)
qed

text \<open>
  C4. When every line of the script that is not blank contains a colon, the parser returns
  one scene for each such line, in the order of the lines: its speaker is the text before
  the first colon, trimmed and put in upper case by \<open>str.upper\<close>, whatever its case
  table, and its text is the text after the first colon, trimmed.
\<close>

theorem tagged_lines_one_scene_each:
  assumes "\<forall>l\<in>set (splitlines script). strip l \<noteq> [] \<longrightarrow> CHR '':'' \<in> set l"
  shows "parse_script_with_characters upper script =
           map (\<lambda>l. \<lparr>character = upper (strip (takeWhile (\<lambda>c. c \<noteq> CHR '':'') l)),
                      scene_text = strip (tl (dropWhile (\<lambda>c. c \<noteq> CHR '':'') l))\<rparr>)
               (filter (\<lambda>l. strip l \<noteq> []) (splitlines script))"
proof -
  have "scene_of_line upper = (\<lambda>l. \<lparr>character = upper (strip (takeWhile (\<lambda>c. c \<noteq> CHR '':'') l)),
                      scene_text = strip (tl (dropWhile (\<lambda>c. c \<noteq> CHR '':'') l))\<rparr>)"
    by (simp add: fun_eq_iff scene_of_line_def split_colon_def)
  with parse_lines_tagged [OF assms] show ?thesis
    by (simp add: parse_script_with_characters_def)
qed

theorem tagged_lines_one_scene_each_witness:
  "splitlines ('' alice : Hello: there '' @ [CHR 0x0A] @ [CHR 0x0A] @ CHR 0xE9 # ''ric:hi''
                @ [CHR 0x0A] @ CHR 0xDF # ''x: ja'')
     = ['' alice : Hello: there '', [], CHR 0xE9 # ''ric:hi'', CHR 0xDF # ''x: ja'']
   \<and> parse_script_with_characters upper_latin1
        ('' alice : Hello: there '' @ [CHR 0x0A] @ [CHR 0x0A] @ CHR 0xE9 # ''ric:hi''
          @ [CHR 0x0A] @ CHR 0xDF # ''x: ja'')
     = [\<lparr>character = ''ALICE'', scene_text = ''Hello: there''\<rparr>,
        \<lparr>character = CHR 0xC9 # ''RIC'', scene_text = ''hi''\<rparr>,
        \<lparr>character = ''SSX'', scene_text = ''ja''\<rparr>]"
proof -
  let ?script = "'' alice : Hello: there '' @ [CHR 0x0A] @ [CHR 0x0A] @ CHR 0xE9 # ''ric:hi''
                @ [CHR 0x0A] @ CHR 0xDF # ''x: ja''"
  have ls: "splitlines ?script
     = ['' alice : Hello: there '', [], CHR 0xE9 # ''ric:hi'', CHR 0xDF # ''x: ja'']"
    by code_simp
  have e1: "strip '' alice : Hello: there '' \<noteq> []" "strip (CHR 0xE9 # ''ric:hi'') \<noteq> []"
    "strip (CHR 0xDF # ''x: ja'') \<noteq> []"
    by code_simp+
  have h: "\<forall>l\<in>set (splitlines ?script). strip l \<noteq> [] \<longrightarrow> CHR '':'' \<in> set l"
    unfolding ls by (simp add: strip_Nil)
  have e2: "upper_latin1 (strip '' alice '') = ''ALICE''" "strip '' Hello: there '' = ''Hello: there''"
     "upper_latin1 (strip (CHR 0xE9 # ''ric'')) = CHR 0xC9 # ''RIC''" "strip ''hi'' = ''hi''"
     "upper_latin1 (strip (CHR 0xDF # ''x'')) = ''SSX''" "strip '' ja'' = ''ja''"
    by code_simp+
  have r: "map (\<lambda>l. \<lparr>character = upper_latin1 (strip (takeWhile (\<lambda>c. c \<noteq> CHR '':'') l)),
                      scene_text = strip (tl (dropWhile (\<lambda>c. c \<noteq> CHR '':'') l))\<rparr>)
               (filter (\<lambda>l. strip l \<noteq> []) (splitlines ?script))
     = [\<lparr>character = ''ALICE'', scene_text = ''Hello: there''\<rparr>,
        \<lparr>character = CHR 0xC9 # ''RIC'', scene_text = ''hi''\<rparr>,
        \<lparr>character = ''SSX'', scene_text = ''ja''\<rparr>]"
    unfolding ls using e2 by (simp add: e1 strip_Nil)
  from tagged_lines_one_scene_each [OF h, of upper_latin1] ls r show ?thesis
    by simp
qed

lemma list_update_last: "xs \<noteq> [] \<Longrightarrow> xs[length xs - Suc 0 := v] = butlast xs @ [v]"
  by (induction xs rule: rev_induct) auto

lemma parse_line_blank: "strip b = [] \<Longrightarrow> parse_line upper st b = (fst st, None)"
  by (simp add: parse_line_def)

lemma parse_line_untagged_closed:
  "strip l \<noteq> [] \<Longrightarrow> CHR '':'' \<notin> set l \<Longrightarrow> snd st = None \<Longrightarrow>
   parse_line upper st l = (fst st @ [\<lparr>character = ''NARRATOR'', scene_text = strip l\<rparr>], Some (length (fst st)))"
  by (simp add: parse_line_def colon_in_strip_iff Let_def)

lemma parse_line_untagged_open:
  "strip l \<noteq> [] \<Longrightarrow> CHR '':'' \<notin> set l \<Longrightarrow> snd st = Some k \<Longrightarrow>
   parse_line upper st l = ((fst st)[k := (fst st ! k)\<lparr>scene_text := scene_text (fst st ! k) @ '' '' @ strip l\<rparr>], Some k)"
  by (simp add: parse_line_def colon_in_strip_iff Let_def)

lemma parse_lines_snoc2: "parse_lines upper (ls @ [a, b]) = parse_line upper (parse_line upper (parse_lines upper ls) a) b"
  by (simp add: parse_lines_def)

text \<open>
  C5. A line that is not blank and has no colon is a continuation line. When a scene is open,
  that is, when the line before it is not blank, the parser appends the trimmed line to the
  text of the last scene after exactly one space, and the number of scenes stays. A blank
  line leaves the scenes as they are and closes the open scene: a continuation line after a
  blank line, or as the first line of the script, begins a new scene of the speaker
  \<open>NARRATOR\<close> whose text is the trimmed line. Here \<open>s0\<close> is a script with the lines
  \<open>pre\<close>, and \<open>s1\<close> to \<open>s4\<close> are scripts with the lines named in the hypotheses.
\<close>

theorem continuation_lines:
  assumes l: "strip l \<noteq> []" "CHR '':'' \<notin> set l" and b: "strip b = []"
    and s0: "splitlines s0 = pre"
    and s1: "splitlines s1 = pre @ [l]"
    and s2: "splitlines s2 = pre @ [b]"
    and s3: "splitlines s3 = pre @ [b, l]"
    and s4: "splitlines s4 = [l]"
  shows "(pre \<noteq> [] \<and> strip (last pre) \<noteq> [] \<longrightarrow>
            parse_script_with_characters upper s0 \<noteq> [] \<and>
            parse_script_with_characters upper s1 =
              butlast (parse_script_with_characters upper s0) @
              [(last (parse_script_with_characters upper s0))
                 \<lparr>scene_text := scene_text (last (parse_script_with_characters upper s0)) @ '' '' @ strip l\<rparr>])
       \<and> (pre = [] \<or> strip (last pre) = [] \<longrightarrow>
            parse_script_with_characters upper s1 =
              parse_script_with_characters upper s0 @ [\<lparr>character = ''NARRATOR'', scene_text = strip l\<rparr>])
       \<and> parse_script_with_characters upper s2 = parse_script_with_characters upper s0
       \<and> parse_script_with_characters upper s3 =
            parse_script_with_characters upper s0 @ [\<lparr>character = ''NARRATOR'', scene_text = strip l\<rparr>]
       \<and> parse_script_with_characters upper s4 = [\<lparr>character = ''NARRATOR'', scene_text = strip l\<rparr>]"
proof -
  let ?st = "parse_lines upper pre"
  have p0: "parse_script_with_characters upper s0 = fst ?st"
    by (simp add: parse_script_with_characters_def s0)
  have p1: "parse_script_with_characters upper s1 = fst (parse_line upper ?st l)"
    by (simp add: parse_script_with_characters_def s1 parse_lines_snoc)
  have p2: "parse_script_with_characters upper s2 = fst (parse_line upper ?st b)"
    by (simp add: parse_script_with_characters_def s2 parse_lines_snoc)
  have p3: "parse_script_with_characters upper s3 = fst (parse_line upper (parse_line upper ?st b) l)"
    by (simp add: parse_script_with_characters_def s3 parse_lines_snoc2)
  have p4: "parse_script_with_characters upper s4 = fst (parse_line upper ([], None) l)"
    by (simp add: parse_script_with_characters_def s4 parse_lines_def)
  have cur: "snd ?st = (if pre = [] \<or> strip (last pre) = [] then None
                        else Some (length (fst ?st) - 1))"
    and ne: "snd ?st \<noteq> None \<longrightarrow> fst ?st \<noteq> []"
    using parse_lines_current [of upper pre] by blast+
  have A: "parse_script_with_characters upper s0 \<noteq> [] \<and>
            parse_script_with_characters upper s1 =
              butlast (parse_script_with_characters upper s0) @
              [(last (parse_script_with_characters upper s0))
                 \<lparr>scene_text := scene_text (last (parse_script_with_characters upper s0)) @ '' '' @ strip l\<rparr>]"
    if "pre \<noteq> [] \<and> strip (last pre) \<noteq> []"
  proof -
    from that cur have k: "snd ?st = Some (length (fst ?st) - 1)" by simp
    with ne have n: "fst ?st \<noteq> []" by simp
    show ?thesis
      unfolding p0 p1 parse_line_untagged_open [OF l k]
      using n by (simp add: list_update_last last_conv_nth)
  qed
  have B: "parse_script_with_characters upper s1 =
              parse_script_with_characters upper s0 @ [\<lparr>character = ''NARRATOR'', scene_text = strip l\<rparr>]"
    if "pre = [] \<or> strip (last pre) = []"
  proof -
    from that cur have k: "snd ?st = None" by simp
    show ?thesis
      unfolding p0 p1 parse_line_untagged_closed [OF l k] by simp
  qed
  have C: "parse_script_with_characters upper s2 = parse_script_with_characters upper s0"
    unfolding p0 p2 by (simp add: parse_line_blank [OF b])
  have D: "parse_script_with_characters upper s3 =
            parse_script_with_characters upper s0 @ [\<lparr>character = ''NARRATOR'', scene_text = strip l\<rparr>]"
    unfolding p0 p3 parse_line_blank [OF b]
    by (simp add: parse_line_untagged_closed [OF l])
  have E: "parse_script_with_characters upper s4 = [\<lparr>character = ''NARRATOR'', scene_text = strip l\<rparr>]"
    unfolding p4 by (simp add: parse_line_untagged_closed [OF l])
  from A B C D E show ?thesis by blast
qed

theorem continuation_lines_witness:
  "parse_script_with_characters upper_latin1 (''ALICE: hi'' @ [CHR 0x0A] @ '' there '')
     = [\<lparr>character = ''ALICE'', scene_text = ''hi there''\<rparr>]
   \<and> parse_script_with_characters upper_latin1 (''ALICE: hi'' @ [CHR 0x0A] @ ''  '')
     = [\<lparr>character = ''ALICE'', scene_text = ''hi''\<rparr>]
   \<and> parse_script_with_characters upper_latin1 (''ALICE: hi'' @ [CHR 0x0A] @ ''  '' @ [CHR 0x0A] @ '' there '')
     = [\<lparr>character = ''ALICE'', scene_text = ''hi''\<rparr>,
        \<lparr>character = ''NARRATOR'', scene_text = ''there''\<rparr>]
   \<and> parse_script_with_characters upper_latin1 '' there ''
     = [\<lparr>character = ''NARRATOR'', scene_text = ''there''\<rparr>]"
proof -
  have l: "strip '' there '' \<noteq> []" "CHR '':'' \<notin> set '' there ''"
    by code_simp+
  have b: "strip ''  '' = []" by code_simp
  have s0: "splitlines ''ALICE: hi'' = [''ALICE: hi'']" by code_simp
  have s1: "splitlines (''ALICE: hi'' @ [CHR 0x0A] @ '' there '') = [''ALICE: hi''] @ ['' there '']"
    by code_simp
  have s2: "splitlines (''ALICE: hi'' @ [CHR 0x0A] @ ''  '') = [''ALICE: hi''] @ [''  '']"
    by code_simp
  have s3: "splitlines (''ALICE: hi'' @ [CHR 0x0A] @ ''  '' @ [CHR 0x0A] @ '' there '')
             = [''ALICE: hi''] @ [''  '', '' there '']"
    by code_simp
  have s4: "splitlines '' there '' = ['' there '']" by code_simp
  have p0: "parse_script_with_characters upper_latin1 ''ALICE: hi'' = [\<lparr>character = ''ALICE'', scene_text = ''hi''\<rparr>]"
    by code_simp
  have e: "strip '' there '' = ''there''" "strip ''ALICE: hi'' \<noteq> []" by code_simp+
  from continuation_lines [OF l b s0 s1 s2 s3 s4, of upper_latin1] show ?thesis
    by (simp add: p0 e)
qed








section \<open>Programs\<close>

lemma outcome_eq_iff:
  "r = r' \<longleftrightarrow> result_of r = result_of r' \<and> world_of r = world_of r' \<and> events_of r = events_of r'"
  by (cases r; cases r') (auto simp: result_of_def world_of_def events_of_def)

lemma outcome_simps [simp]:
  "result_of (a, w, evs) = a" "world_of (a, w, evs) = w" "events_of (a, w, evs) = evs"
  by (simp_all add: result_of_def world_of_def events_of_def)

lemma return_simps [simp]:
  "result_of (return x w) = Inr x" "world_of (return x w) = w" "events_of (return x w) = []"
  by (simp_all add: return_def)

lemma raise_simps [simp]:
  "result_of (raise e w) = Inl e" "world_of (raise e w) = w" "events_of (raise e w) = [Raise e]"
  by (simp_all add: raise_def)

lemma emit_simps [simp]:
  "result_of (emit evs w) = Inr ()" "world_of (emit evs w) = w" "events_of (emit evs w) = evs"
  by (simp_all add: emit_def)

lemma and_then_Inl:
  "result_of (m w) = Inl e \<Longrightarrow> and_then m f w = (Inl e, world_of (m w), events_of (m w))"
  by (cases "m w") (auto simp: and_then_def)

lemma and_then_Inr:
  "result_of (m w) = Inr x \<Longrightarrow>
   and_then m f w = (result_of (f x (world_of (m w))), world_of (f x (world_of (m w))),
                     events_of (m w) @ events_of (f x (world_of (m w))))"
  by (cases "m w"; cases "f x (world_of (m w))") (auto simp: and_then_def)

lemma stage_simps:
  "events_of (stage E c w) = Stage c # (case fst (run_call E c w) of None \<Rightarrow> [] | Some e \<Rightarrow> [Raise e])"
  "result_of (stage E c w) = (case fst (run_call E c w) of None \<Rightarrow> Inr () | Some e \<Rightarrow> Inl e)"
  "world_of (stage E c w) = snd (run_call E c w)"
  by (cases "run_call E c w"; cases "fst (run_call E c w)"; simp add: stage_def)+


lemma and_then_events:
  "events_of (and_then m f w) =
     events_of (m w) @ (case result_of (m w) of Inl e \<Rightarrow> [] | Inr x \<Rightarrow> events_of (f x (world_of (m w))))"
  by (cases "result_of (m w)") (simp_all add: and_then_Inl and_then_Inr)

lemma and_then_result:
  "result_of (and_then m f w) =
     (case result_of (m w) of Inl e \<Rightarrow> Inl e | Inr x \<Rightarrow> result_of (f x (world_of (m w))))"
  by (cases "result_of (m w)") (simp_all add: and_then_Inl and_then_Inr)

lemma and_then_world:
  "world_of (and_then m f w) =
     (case result_of (m w) of Inl e \<Rightarrow> world_of (m w) | Inr x \<Rightarrow> world_of (f x (world_of (m w))))"
  by (cases "result_of (m w)") (simp_all add: and_then_Inl and_then_Inr)

lemma render_None_events:
  "events_of (render_scene_video E job_id i sc None resolution fps w) \<noteq> []"
  "hd (events_of (render_scene_video E job_id i sc None resolution fps w))
     = Stage (TextSlide resolution (take 200 (scene_text sc)) (scene_file job_id i ''img.png''))"
  by (simp_all add: render_scene_video_def Let_def and_then_events stage_simps)

lemma video_step_placeholder:
  "hd (events_of (video_step E job_id [] [] resolution fps auds n i sc w))
     = Stage (TextSlide resolution (take 200 (scene_text sc)) (scene_file job_id i ''img.png''))"
  by (simp add: video_step_def select_asset_def render_None_events
      and_then_events [of "render_scene_video E job_id i sc None resolution fps"])

lemma select_two: "select_asset i [a, b] clips = Some (if even i then a else b)"
proof (cases "even i")
  case True
  then have "i mod Suc (Suc 0) = 0" by presburger
  then show ?thesis using True by (simp add: select_asset_def)
next
  case False
  then have "i mod Suc (Suc 0) = 1" by presburger
  then show ?thesis using False by (simp add: select_asset_def)
qed

lemma render_Some_events:
  assumes "a \<noteq> []" "path_exists E a w"
  shows "hd (events_of (render_scene_video E job_id i sc (Some a) resolution fps w))
     = Stage (asset_call a (scene_file job_id i ''video.mp4'') (scene_duration (scene_text sc))
                resolution fps)"
    and "events_of (render_scene_video E job_id i sc (Some a) resolution fps w) \<noteq> []"
  using assms
  by (simp_all add: render_scene_video_def Let_def and_then_events stage_simps asset_call_def)

lemma render_missing_events:
  assumes "a = [] \<or> \<not> path_exists E a w"
  shows "hd (events_of (render_scene_video E job_id i sc (Some a) resolution fps w))
     = Stage (TextSlide resolution (take 200 (scene_text sc)) (scene_file job_id i ''img.png''))"
    and "events_of (render_scene_video E job_id i sc (Some a) resolution fps w) \<noteq> []"
  using assms
  by (auto simp add: render_scene_video_def Let_def and_then_events stage_simps)

lemma video_step_hd:
  "hd (events_of (video_step E job_id images clips resolution fps auds n i sc w))
   = hd (events_of (render_scene_video E job_id i sc (select_asset i images clips) resolution fps w))"
  if "events_of (render_scene_video E job_id i sc (select_asset i images clips) resolution fps w) \<noteq> []"
  using that
  by (simp add: video_step_def Let_def
      and_then_events [of "render_scene_video E job_id i sc (select_asset i images clips) resolution fps"])

lemma video_step_asset:
  assumes "select_asset i images clips = Some a" "a \<noteq> []" "path_exists E a w"
  shows "hd (events_of (video_step E job_id images clips resolution fps auds n i sc w))
     = Stage (asset_call a (scene_file job_id i ''video.mp4'') (scene_duration (scene_text sc))
                resolution fps)"
  using video_step_hd [of E job_id i sc images clips resolution fps w auds n]
    render_Some_events [OF assms(2,3), of job_id i sc resolution fps]
  by (simp add: assms(1))

lemma video_step_missing:
  assumes "select_asset i images clips = Some a" "a = [] \<or> \<not> path_exists E a w"
  shows "hd (events_of (video_step E job_id images clips resolution fps auds n i sc w))
     = Stage (TextSlide resolution (take 200 (scene_text sc)) (scene_file job_id i ''img.png''))"
  using video_step_hd [of E job_id i sc images clips resolution fps w auds n]
    render_missing_events [OF assms(2), of job_id i sc resolution fps]
  by (simp add: assms(1))

text \<open>
  C7. For scene \<open>i\<close> the worker takes \<open>images[i mod len(images)]\<close> when images were
  supplied, otherwise \<open>clips[i mod len(clips)]\<close> when clips were supplied, the index being
  in range in both cases, and the step of the scene in the worker's loop begins by rendering
  the scene's video from that asset: it calls \<open>clip_trim_or_loop\<close> or \<open>image_to_video\<close>
  on it, by its extension, provided the path is not empty and exists. When neither images
  nor clips were supplied no asset is selected, and the step begins by drawing the text
  slide; it does the same when the selected path is empty or does not exist. With two
  images the selection, and with it the step of the scene, alternates between the first,
  for even \<open>i\<close>, and the second, for odd \<open>i\<close>.
\<close>

theorem asset_selection:
  "(images \<noteq> [] \<longrightarrow>
      i mod length images < length images
      \<and> select_asset i images clips = Some (images ! (i mod length images))
      \<and> (images ! (i mod length images) \<noteq> [] \<and> path_exists E (images ! (i mod length images)) w \<longrightarrow>
           hd (events_of (video_step E job_id images clips resolution fps auds n i sc w))
           = Stage (asset_call (images ! (i mod length images)) (scene_file job_id i ''video.mp4'')
                      (scene_duration (scene_text sc)) resolution fps)))
   \<and> (images = [] \<and> clips \<noteq> [] \<longrightarrow>
      i mod length clips < length clips
      \<and> select_asset i images clips = Some (clips ! (i mod length clips))
      \<and> (clips ! (i mod length clips) \<noteq> [] \<and> path_exists E (clips ! (i mod length clips)) w \<longrightarrow>
           hd (events_of (video_step E job_id images clips resolution fps auds n i sc w))
           = Stage (asset_call (clips ! (i mod length clips)) (scene_file job_id i ''video.mp4'')
                      (scene_duration (scene_text sc)) resolution fps)))
   \<and> (images = [] \<and> clips = [] \<longrightarrow>
      select_asset i images clips = None
      \<and> hd (events_of (video_step E job_id images clips resolution fps auds n i sc w))
          = Stage (TextSlide resolution (take 200 (scene_text sc)) (scene_file job_id i ''img.png'')))
   \<and> (\<forall>a. select_asset i images clips = Some a \<and> (a = [] \<or> \<not> path_exists E a w) \<longrightarrow>
        hd (events_of (video_step E job_id images clips resolution fps auds n i sc w))
          = Stage (TextSlide resolution (take 200 (scene_text sc)) (scene_file job_id i ''img.png'')))
   \<and> select_asset i [a, b] clips = Some (if even i then a else b)
   \<and> ((if even i then a else b) \<noteq> [] \<and> path_exists E (if even i then a else b) w \<longrightarrow>
        hd (events_of (video_step E job_id [a, b] clips resolution fps auds n i sc w))
        = Stage (asset_call (if even i then a else b) (scene_file job_id i ''video.mp4'')
                   (scene_duration (scene_text sc)) resolution fps))"
proof -
  have I: "select_asset i images clips = Some (images ! (i mod length images))" if "images \<noteq> []"
    using that by (simp add: select_asset_def)
  have C: "select_asset i images clips = Some (clips ! (i mod length clips))"
    if "images = []" "clips \<noteq> []"
    using that by (simp add: select_asset_def)
  have N: "select_asset i images clips = None" if "images = []" "clips = []"
    using that by (simp add: select_asset_def)
  note T = select_two [of i a b clips]
  show ?thesis
    using I C N T video_step_asset [OF I, of E w job_id resolution fps auds n sc]
      video_step_asset [OF C, of E w job_id resolution fps auds n sc]
      video_step_asset [OF T, of E w job_id resolution fps auds n sc]
      video_step_missing [of i images clips _ E w job_id resolution fps auds n sc]
      video_step_placeholder [of E job_id resolution fps auds n i sc w]
    by (intro conjI impI allI) auto
qed


theorem asset_selection_witness:
  "select_asset 3 [''a.png'', ''b.png''] [''c.mp4''] = Some ''b.png''
   \<and> hd (events_of (video_step env_files ''j'' [''a.png'', ''b.png''] [''c.mp4''] ''640x360'' 24 [] 4 3
            \<lparr>character = ''BOB'', scene_text = ''hi''\<rparr> ()))
       = Stage (ImageToVideo ''b.png'' ''tmp/j_scene_3_video.mp4'' 4 ''640x360'' 24)
   \<and> select_asset 4 [] [''c.mp4'', ''d.mp4'', ''e.mp4''] = Some ''d.mp4''
   \<and> hd (events_of (video_step env_files ''j'' [] [''c.mp4'', ''d.mp4'', ''e.mp4''] ''640x360'' 24 [] 5 4
            \<lparr>character = ''BOB'', scene_text = ''hi''\<rparr> ()))
       = Stage (ClipTrimOrLoop ''d.mp4'' ''tmp/j_scene_4_video.mp4'' 4 ''640x360'' 24)
   \<and> select_asset 5 [] [] = None
   \<and> hd (events_of (video_step env_ok ''j'' [] [] ''640x360'' 24 [] 1 0
            \<lparr>character = ''BOB'', scene_text = ''hi''\<rparr> ()))
       = Stage (TextSlide ''640x360'' ''hi'' ''tmp/j_scene_0_img.png'')
   \<and> hd (events_of (video_step env_ok ''j'' [''a.png'', ''b.png''] [] ''640x360'' 24 [] 1 0
            \<lparr>character = ''BOB'', scene_text = ''hi''\<rparr> ()))
       = Stage (TextSlide ''640x360'' ''hi'' ''tmp/j_scene_0_img.png'')"
proof -
  let ?sc = "\<lparr>character = ''BOB'', scene_text = ''hi''\<rparr>"
  have f: "scene_file ''j'' 0 ''img.png'' = ''tmp/j_scene_0_img.png''"
    "scene_file ''j'' 3 ''video.mp4'' = ''tmp/j_scene_3_video.mp4''"
    "scene_file ''j'' 4 ''video.mp4'' = ''tmp/j_scene_4_video.mp4''"
    by code_simp+
  have d: "scene_duration ''hi'' = 4" by code_simp
  have c: "asset_call ''b.png'' out dur res fps = ImageToVideo ''b.png'' out dur res fps"
    "asset_call ''d.mp4'' out dur res fps = ClipTrimOrLoop ''d.mp4'' out dur res fps"
    for out dur res fps
  proof -
    have "lower (splitext_ext ''b.png'') = ''.png''" "lower (splitext_ext ''d.mp4'') = ''.mp4''"
      by code_simp+
    then show "asset_call ''b.png'' out dur res fps = ImageToVideo ''b.png'' out dur res fps"
      "asset_call ''d.mp4'' out dur res fps = ClipTrimOrLoop ''d.mp4'' out dur res fps"
      by (simp_all add: asset_call_def video_exts_def)
  qed
  have ex: "path_exists env_files p ()" "\<not> path_exists env_ok p ()" for p
    by (simp_all add: env_files_def env_ok_def)
  have i3: "[''a.png'', ''b.png''] ! (3 mod length [''a.png'', ''b.png'']) = ''b.png''"
    and i4: "[''c.mp4'', ''d.mp4'', ''e.mp4''] ! (4 mod length [''c.mp4'', ''d.mp4'', ''e.mp4'']) = ''d.mp4''"
    by code_simp+
  note A = asset_selection [of "[''a.png'', ''b.png'']" 3 "[''c.mp4'']" env_files "()" "''j''"
      "''640x360''" 24 "[]" 4 ?sc "''a.png''" "''b.png''", THEN conjunct1, unfolded i3]
  have 1: "select_asset 3 [''a.png'', ''b.png''] [''c.mp4''] = Some ''b.png''"
    using A by simp
  have 2: "hd (events_of (video_step env_files ''j'' [''a.png'', ''b.png''] [''c.mp4''] ''640x360'' 24 [] 4 3
            ?sc ())) = Stage (ImageToVideo ''b.png'' ''tmp/j_scene_3_video.mp4'' 4 ''640x360'' 24)"
    using A by (simp add: ex f d c)
  note B = asset_selection [of "[]" 4 "[''c.mp4'', ''d.mp4'', ''e.mp4'']" env_files "()" "''j''"
      "''640x360''" 24 "[]" 5 ?sc "''a.png''" "''b.png''", THEN conjunct2, THEN conjunct1, unfolded i4]
  have 3: "select_asset 4 [] [''c.mp4'', ''d.mp4'', ''e.mp4''] = Some ''d.mp4''"
    using B by simp
  have 4: "hd (events_of (video_step env_files ''j'' [] [''c.mp4'', ''d.mp4'', ''e.mp4''] ''640x360'' 24 [] 5 4
            ?sc ())) = Stage (ClipTrimOrLoop ''d.mp4'' ''tmp/j_scene_4_video.mp4'' 4 ''640x360'' 24)"
    using B by (simp add: ex f d c)
  have 5: "select_asset 5 [] [] = None"
    using asset_selection [of "[]" 5 "[]" env_ok "()" "''j''" "''640x360''" 24 "[]" 1 ?sc
        "''a.png''" "''b.png''", THEN conjunct2, THEN conjunct2, THEN conjunct1]
    by simp
  have 6: "hd (events_of (video_step env_ok ''j'' [] [] ''640x360'' 24 [] 1 0 ?sc ()))
       = Stage (TextSlide ''640x360'' ''hi'' ''tmp/j_scene_0_img.png'')"
    using asset_selection [of "[]" 0 "[]" env_ok "()" "''j''" "''640x360''" 24 "[]" 1 ?sc
        "''a.png''" "''b.png''", THEN conjunct2, THEN conjunct2, THEN conjunct1]
    by (simp add: f)
  note D = asset_selection [of "[''a.png'', ''b.png'']" 0 "[]" env_ok "()" "''j''"
      "''640x360''" 24 "[]" 1 ?sc "''a.png''" "''b.png''"]
  have s0: "select_asset 0 [''a.png'', ''b.png''] [] = Some ''a.png''"
    using D [THEN conjunct1] by simp
  have 7: "hd (events_of (video_step env_ok ''j'' [''a.png'', ''b.png''] [] ''640x360'' 24 [] 1 0 ?sc ()))
       = Stage (TextSlide ''640x360'' ''hi'' ''tmp/j_scene_0_img.png'')"
    using D [THEN conjunct2, THEN conjunct2, THEN conjunct2, THEN conjunct1, THEN spec, of "''a.png''"]
      s0 ex
    by (simp add: f)
  from 1 2 3 4 5 6 7 show ?thesis by blast
qed


section \<open>Scene duration\<close>

lemma py_int_nonneg: "0 \<le> x \<Longrightarrow> py_int x = \<lfloor>x\<rfloor>"
  by (simp add: py_int_def)

lemma scene_duration_floor:
  "scene_duration t = \<lfloor>max 4 (rat_of_nat (length (split t)) / (5 / 2))\<rfloor>"
  by (simp add: scene_duration_def py_int_def)

lemma scene_duration_div: "scene_duration t = max 4 ((2 * int (length (split t))) div 5)"
proof -
  let ?n = "length (split t)"
  let ?q = "rat_of_nat ?n / (5 / 2)"
  have q: "?q = rat_of_int (2 * int ?n) / rat_of_int 5"
    by simp
  have f: "\<lfloor>?q\<rfloor> = (2 * int ?n) div 5"
    unfolding q by (rule floor_divide_of_int_eq)
  have m: "\<lfloor>max 4 ?q\<rfloor> = max 4 \<lfloor>?q\<rfloor>"
  proof (cases "4 \<le> ?q")
    case True
    then have "4 \<le> \<lfloor>?q\<rfloor>" by (simp add: le_floor_iff)
    with True show ?thesis by (simp only: max_absorb2)
  next
    case False
    then have l: "\<lfloor>?q\<rfloor> < 4" by (simp add: floor_less_iff)
    from False have "max 4 ?q = 4" by (simp only: max_def) simp
    moreover from l have "max 4 \<lfloor>?q\<rfloor> = 4" by (simp only: max_def) simp
    ultimately show ?thesis by (simp only: floor_numeral)
  qed
  show ?thesis
    unfolding scene_duration_floor m f ..
qed

lemma render_durations:
  assumes "Stage c \<in> set (events_of (render_scene_video E job_id i sc asset resolution fps w))"
    and "call_duration c = Some d"
  shows "d = scene_duration (scene_text sc)"
  using assms
  by (auto simp: render_scene_video_def Let_def and_then_events stage_simps call_duration_def
      split: option.splits if_splits sum.splits)


text \<open>
  C8. The duration the worker computes for a scene is the integer part of the larger of 4
  and the number of words of the scene's text divided by 2.5, which is the larger of 4 and
  \<open>2 * words div 5\<close>. It is never below 4; a text of ten words and a text of two words both
  give 4. Every call that renders the scene's video receives this duration.
\<close>

theorem scene_duration_policy:
  "scene_duration t = \<lfloor>max 4 (rat_of_nat (length (split t)) / (5 / 2))\<rfloor>
   \<and> scene_duration t = max 4 ((2 * int (length (split t))) div 5)
   \<and> 4 \<le> scene_duration t
   \<and> (length (split t) = 10 \<longrightarrow> scene_duration t = 4)
   \<and> (length (split t) = 2 \<longrightarrow> scene_duration t = 4)
   \<and> (\<forall>c d. Stage c \<in> set (events_of (render_scene_video E job_id i sc asset resolution fps w))
              \<and> call_duration c = Some d \<longrightarrow> d = scene_duration (scene_text sc))"
proof -
  have "4 \<le> scene_duration t"
    by (simp add: scene_duration_div)
  moreover have "length (split t) = 10 \<longrightarrow> scene_duration t = 4"
    by (simp add: scene_duration_div)
  moreover have "length (split t) = 2 \<longrightarrow> scene_duration t = 4"
    by (simp add: scene_duration_div)
  ultimately show ?thesis
    using scene_duration_floor [of t] scene_duration_div [of t]
      render_durations [of _ E job_id i sc asset resolution fps w]
    by blast
qed

theorem scene_duration_policy_witness:
  "length (split ''one two three four five six seven eight nine ten'') = 10
   \<and> scene_duration ''one two three four five six seven eight nine ten'' = 4
   \<and> events_of (render_scene_video env_ok ''j'' 0
        \<lparr>character = ''BOB'', scene_text = ''one two three four five six seven eight nine ten''\<rparr>
        None ''640x360'' 24 ())
      = [Stage (TextSlide ''640x360'' ''one two three four five six seven eight nine ten''
                 ''tmp/j_scene_0_img.png''),
         Stage (ImageToVideo ''tmp/j_scene_0_img.png'' ''tmp/j_scene_0_video.mp4'' 4 ''640x360'' 24)]"
proof -
  have n: "length (split ''one two three four five six seven eight nine ten'') = 10"
    by code_simp
  have f: "scene_file ''j'' 0 ''img.png'' = ''tmp/j_scene_0_img.png''"
    "scene_file ''j'' 0 ''video.mp4'' = ''tmp/j_scene_0_video.mp4''"
    by code_simp+
  have d: "scene_duration ''one two three four five six seven eight nine ten'' = 4"
    using scene_duration_policy [of "''one two three four five six seven eight nine ten''"
        env_ok "''j''" 0 "\<lparr>character = ''BOB'', scene_text = ''hi''\<rparr>" None "''640x360''" 24 "()"] n
    by blast
  have e: "events_of (render_scene_video env_ok ''j'' 0
        \<lparr>character = ''BOB'', scene_text = ''one two three four five six seven eight nine ten''\<rparr>
        None ''640x360'' 24 ())
      = [Stage (TextSlide ''640x360'' ''one two three four five six seven eight nine ten''
                 ''tmp/j_scene_0_img.png''),
         Stage (ImageToVideo ''tmp/j_scene_0_img.png'' ''tmp/j_scene_0_video.mp4'' 4 ''640x360'' 24)]"
    by (simp add: render_scene_video_def Let_def and_then_events and_then_result and_then_world
        stage_simps env_ok_def f d)
  from n d e show ?thesis by blast
qed

section \<open>Speech synthesis dispatch\<close>

lemma synthesize_character_voice_eq:
  "synthesize_character_voice E chr t out_path w = synthesize_with_gtts E t out_path ''en'' w"
  by (simp add: synthesize_character_voice_def Let_def outcome_eq_iff
      and_then_events and_then_result and_then_world synthesize_with_gtts_def
      split: sum.splits)

text \<open>
  C10. Whatever the speaker and whatever the voice map says about it, a provider that
  starts with \<open>gtts\<close>, another provider or none, \<open>synthesize_character_voice\<close> does what
  \<open>synthesize_with_gtts\<close> does with the language \<open>en\<close>: its only call is the gTTS call
  for the given text and path, and when that call returns, the result is the given path.
\<close>

theorem voice_dispatch:
  "synthesize_character_voice E chr t out_path w = synthesize_with_gtts E t out_path ''en'' w
   \<and> events_of (synthesize_character_voice E chr t out_path w)
       = Stage (GttsSave t out_path ''en'')
         # (case fst (run_call E (GttsSave t out_path ''en'') w) of None \<Rightarrow> [] | Some e \<Rightarrow> [Raise e])
   \<and> result_of (synthesize_character_voice E chr t out_path w)
       = (case fst (run_call E (GttsSave t out_path ''en'') w) of
            None \<Rightarrow> Inr out_path | Some e \<Rightarrow> Inl e)"
  unfolding synthesize_character_voice_eq
  by (simp add: synthesize_with_gtts_def and_then_events and_then_result stage_simps
      split: option.splits)


theorem voice_dispatch_witness:
  "CHAR_VOICE_MAP env_voices (str_upper env_voices ''alice'') = Some ''eleven_alice''
   \<and> \<not> startswith ''eleven_alice'' ''gtts''
   \<and> events_of (synthesize_character_voice env_voices ''alice'' ''Hi'' ''tmp/a.mp3'' ())
       = [Stage (GttsSave ''Hi'' ''tmp/a.mp3'' ''en'')]
   \<and> result_of (synthesize_character_voice env_voices ''alice'' ''Hi'' ''tmp/a.mp3'' ())
       = Inr ''tmp/a.mp3''"
proof -
  have u: "str_upper env_voices ''alice'' = ''ALICE''" by code_simp
  have m: "CHAR_VOICE_MAP env_voices (str_upper env_voices ''alice'') = Some ''eleven_alice''"
    unfolding u by (simp add: env_voices_def)
  have s: "\<not> startswith ''eleven_alice'' ''gtts''"
    by (simp add: startswith_def)
  have r: "fst (run_call env_voices (GttsSave ''Hi'' ''tmp/a.mp3'' ''en'') ()) = None"
    by (simp add: env_voices_def)
  from voice_dispatch [of env_voices "''alice''" "''Hi''" "''tmp/a.mp3''" "()", THEN conjunct2] m s
  show ?thesis
    by (simp add: r)
qed

section \<open>Traces of the stages\<close>

lemma progress_writes_append: "progress_writes (a @ b) = progress_writes a @ progress_writes b"
  by (induction a rule: progress_writes.induct) simp_all

lemma band_Nil: "lo \<le> hi \<Longrightarrow> band lo hi []"
  by (simp add: band_def)

lemma band_append:
  assumes "band lo1 hi1 a" "band lo2 hi2 b" "hi1 \<le> lo2"
  shows "band lo1 hi2 (a @ b)"
  using assms
  by (fastforce simp: band_def progress_writes_append sorted_append list_all_iff)

lemma band_weaken: "band lo hi a \<Longrightarrow> lo' \<le> lo \<Longrightarrow> hi \<le> hi' \<Longrightarrow> band lo' hi' a"
  by (fastforce simp: band_def list_all_iff)

lemma raised_last_and_then:
  assumes "raised_last (m w)" "\<And>x. raised_last (f x (world_of (m w)))"
  shows "raised_last (and_then m f w)"
proof (cases "result_of (m w)")
  case (Inl e)
  with assms(1) show ?thesis
    by (simp add: raised_last_def and_then_Inl)
next
  case (Inr x)
  let ?r = "f x (world_of (m w))"
  from Inr assms(1) have a: "\<not> list_ex is_raise (events_of (m w))"
    by (simp add: raised_last_def)
  from assms(2) have b: "raised_last ?r" .
  show ?thesis
  proof (cases "result_of ?r")
    case (Inl e)
    with b have "events_of ?r \<noteq> []" "last (events_of ?r) = Raise e"
      "\<not> list_ex is_raise (butlast (events_of ?r))"
      by (simp_all add: raised_last_def)
    with a Inl Inr show ?thesis
      by (simp add: raised_last_def and_then_Inr butlast_append)
  next
    case r: (Inr y)
    with b have "\<not> list_ex is_raise (events_of ?r)"
      by (simp add: raised_last_def)
    with a r Inr show ?thesis
      by (simp add: raised_last_def and_then_Inr)
  qed
qed

lemma ok_and_then:
  assumes "ok lo1 hi1 m" "\<And>x. ok lo2 hi2 (f x)" "hi1 \<le> lo2"
  shows "ok lo1 hi2 (and_then m f)"
  unfolding ok_def
proof (intro allI conjI)
  fix w
  from assms(1) have m: "band lo1 hi1 (events_of (m w))" "raised_last (m w)"
    by (simp_all add: ok_def)
  from assms(2) have f: "\<And>x. band lo2 hi2 (events_of (f x (world_of (m w))))"
    "\<And>x. raised_last (f x (world_of (m w)))"
    by (simp_all add: ok_def)
  show "raised_last (and_then m f w)"
    using m(2) f(2) by (rule raised_last_and_then)
  have lohi: "lo2 \<le> hi2" using f(1) by (simp add: band_def)
  show "band lo1 hi2 (events_of (and_then m f w))"
  proof (cases "result_of (m w)")
    case (Inl e)
    then show ?thesis
      using band_weaken [OF m(1), of lo1 hi2] assms(3) lohi by (simp add: and_then_Inl)
  next
    case (Inr x)
    then show ?thesis
      using band_append [OF m(1) f(1) assms(3)] by (simp add: and_then_Inr)
  qed
qed

lemma ok_weaken: "ok lo hi m \<Longrightarrow> lo' \<le> lo \<Longrightarrow> hi \<le> hi' \<Longrightarrow> ok lo' hi' m"
  unfolding ok_def using band_weaken by blast

lemma ok_return: "lo \<le> hi \<Longrightarrow> ok lo hi (return x)"
  by (simp add: ok_def band_def raised_last_def)

lemma ok_raise: "lo \<le> hi \<Longrightarrow> ok lo hi (raise e)"
  by (simp add: ok_def band_def raised_last_def)

lemma ok_stage: "lo \<le> hi \<Longrightarrow> ok lo hi (stage E c)"
  by (simp add: ok_def band_def raised_last_def stage_simps split: option.splits)

lemma ok_emit1: "ok n n (emit [SetProgress n])"
  by (simp add: ok_def band_def raised_last_def)

lemma ok_emit2: "a \<le> b \<Longrightarrow> ok a b (emit [SetProgress a, SetProgress b])"
  by (simp add: ok_def band_def raised_last_def)

lemma ok_seq_return:
  "ok lo hi m \<Longrightarrow> ok lo hi (and_then m (\<lambda>_. return y))"
  using ok_and_then [of lo hi m hi hi "\<lambda>_. return y"] by (simp add: ok_return)

lemma band_progress_eq:
  "0 \<le> width \<Longrightarrow>
   band_progress base width i n = base + (width * int (i + 1)) div int (max 1 n)"
proof -
  assume w: "0 \<le> width"
  let ?q = "of_int width * rat_of_nat (i + 1) / rat_of_nat (max 1 n)"
  have q: "?q = rat_of_int (width * int (i + 1)) / rat_of_int (int (max 1 n))"
    by simp
  have "0 \<le> ?q" using w by simp
  then have "py_int ?q = \<lfloor>?q\<rfloor>" by (simp only: py_int_nonneg)
  also have "\<dots> = (width * int (i + 1)) div int (max 1 n)"
    unfolding q by (rule floor_divide_of_int_eq)
  finally show ?thesis by (simp only: band_progress_def)
qed

lemma band_progress_mono:
  assumes "0 \<le> width" "i \<le> k"
  shows "band_progress base width i n \<le> band_progress base width k n"
proof -
  have "width * int (i + 1) \<le> width * int (k + 1)"
    using assms by (intro mult_left_mono) simp_all
  then have "(width * int (i + 1)) div int (max 1 n) \<le> (width * int (k + 1)) div int (max 1 n)"
    by (intro zdiv_mono1) simp_all
  then show ?thesis by (simp only: band_progress_eq [OF assms(1)])
qed

lemma band_progress_lower: "0 \<le> width \<Longrightarrow> base \<le> band_progress base width i n"
proof -
  assume w: "0 \<le> width"
  have "0 \<le> (width * int (i + 1)) div int (max 1 n)"
    using w by (intro pos_imp_zdiv_nonneg_iff [THEN iffD2]) simp_all
  then show ?thesis by (simp only: band_progress_eq [OF w])
qed

lemma band_progress_upper:
  assumes "0 \<le> width" "i < n"
  shows "band_progress base width i n \<le> base + width"
proof -
  have n: "int (max 1 n) = int n" "0 < int n" using assms(2) by simp_all
  have "width * int (i + 1) \<le> width * int n"
    using assms by (intro mult_left_mono) simp_all
  then have "(width * int (i + 1)) div int n \<le> (width * int n) div int n"
    by (intro zdiv_mono1) (use n in simp_all)
  also have "\<dots> = width" using n by simp
  finally show ?thesis by (simp only: band_progress_eq [OF assms(1)] n)
qed

lemma ok_synthesize_with_gtts: "lo \<le> hi \<Longrightarrow> ok lo hi (synthesize_with_gtts E t out_path lang)"
  unfolding synthesize_with_gtts_def by (intro ok_seq_return ok_stage)

lemma ok_synthesize_character_voice:
  "lo \<le> hi \<Longrightarrow> ok lo hi (synthesize_character_voice E chr t out_path)"
  unfolding synthesize_character_voice_def Let_def
  by (simp add: ok_seq_return ok_synthesize_with_gtts)

lemma ok_concat_videos: "lo \<le> hi \<Longrightarrow> ok lo hi (concat_videos E video_list out_path)"
  unfolding concat_videos_def by (simp add: ok_raise ok_seq_return ok_stage)

lemma ok_generate_preview: "lo \<le> hi \<Longrightarrow> ok lo hi (generate_preview E f p n r)"
  unfolding generate_preview_def by (intro ok_seq_return ok_stage)

lemma ok_py_index: "lo \<le> hi \<Longrightarrow> ok lo hi (py_index xs i)"
  unfolding py_index_def by (simp add: ok_raise ok_return)

lemma ok_text_slide:
  assumes "lo \<le> hi"
  shows "ok lo hi (and_then (stage E c1) (\<lambda>_. and_then (stage E c2) (\<lambda>_. return v)))"
  by (rule ok_and_then [where ?hi1.0 = lo and ?lo2.0 = lo])
     (simp_all add: ok_stage ok_seq_return assms)

lemma ok_render_scene_video:
  assumes "lo \<le> hi"
  shows "ok lo hi (render_scene_video E job_id i sc asset resolution fps)"
proof -
  have A: "band lo hi (events_of (and_then (stage E c1)
              (\<lambda>_. and_then (stage E c2) (\<lambda>_. return v)) w))
         \<and> raised_last (and_then (stage E c1)
              (\<lambda>_. and_then (stage E c2) (\<lambda>_. return v)) w)"
    for c1 c2 and v :: string and w
    using ok_text_slide [OF assms, of E c1 c2 v] by (simp add: ok_def)
  have B: "band lo hi (events_of (and_then (stage E c) (\<lambda>_. return v) w))
         \<and> raised_last (and_then (stage E c) (\<lambda>_. return v) w)"
    for c and v :: string and w
    using ok_seq_return [OF ok_stage [OF assms, of E c], of v] by (simp add: ok_def)
  show ?thesis
    unfolding ok_def render_scene_video_def Let_def
    by (simp add: A B split: option.splits)
qed

lemma ok_tts_step:
  "ok (band_progress 15 20 i n) (band_progress 15 20 i n) (tts_step E job_id n i sc)"
  unfolding tts_step_def Let_def
  by (intro ok_and_then [where ?hi1.0 = "band_progress 15 20 i n" and ?lo2.0 = "band_progress 15 20 i n"]
      ok_synthesize_character_voice ok_emit1 ok_return) simp_all

lemma ok_video_step:
  "ok (band_progress 40 30 i n) (band_progress 40 30 i n)
      (video_step E job_id images clips resolution fps auds n i sc)"
  unfolding video_step_def Let_def
  by (intro ok_and_then [where ?hi1.0 = "band_progress 40 30 i n" and ?lo2.0 = "band_progress 40 30 i n"]
      ok_render_scene_video ok_py_index ok_stage ok_emit1 ok_return) simp_all

lemma tts_loop_Cons:
  "tts_loop E job_id n i (sc # scs) auds =
     and_then (tts_step E job_id n i sc) (\<lambda>a. tts_loop E job_id n (Suc i) scs (auds @ [a]))"
  by (rule ext) (simp add: and_then_def split: prod.splits sum.splits)

lemma tts_loop_Nil: "tts_loop E job_id n i [] auds = return auds"
  by (rule ext) (simp add: return_def)

lemma video_loop_Cons:
  "video_loop E job_id images clips resolution fps auds n i (sc # scs) vids =
     and_then (video_step E job_id images clips resolution fps auds n i sc)
       (\<lambda>v. video_loop E job_id images clips resolution fps auds n (Suc i) scs (vids @ [v]))"
  by (rule ext) (simp add: and_then_def split: prod.splits sum.splits)

lemma video_loop_Nil:
  "video_loop E job_id images clips resolution fps auds n i [] vids = return vids"
  by (rule ext) (simp add: return_def)

lemma ok_tts_loop:
  assumes "i + length scs \<le> n" "lo \<le> band_progress 15 20 i n" "lo \<le> 35"
  shows "ok lo 35 (tts_loop E job_id n i scs auds)"
  using assms
proof (induction scs arbitrary: i lo auds)
  case Nil
  then show ?case by (simp only: tts_loop_Nil ok_return)
next
  case (Cons sc scs)
  let ?b = "band_progress 15 20 i n"
  from Cons.prems(1) have i: "i < n" by simp
  have up: "?b \<le> 35" using band_progress_upper [of 20 i n 15] i by simp
  have mono: "?b \<le> band_progress 15 20 (Suc i) n"
    by (rule band_progress_mono) simp_all
  have rest: "ok ?b 35 (tts_loop E job_id n (Suc i) scs (auds @ [a]))" for a
    using Cons.prems(1) mono up by (intro Cons.IH) simp_all
  have "ok ?b 35 (tts_loop E job_id n i (sc # scs) auds)"
    unfolding tts_loop_Cons
    by (rule ok_and_then [OF ok_tts_step rest]) simp
  then show ?case
    using Cons.prems(2) by (rule ok_weaken) simp
qed

lemma ok_video_loop:
  assumes "i + length scs \<le> n" "lo \<le> band_progress 40 30 i n" "lo \<le> 70"
  shows "ok lo 70 (video_loop E job_id images clips resolution fps auds n i scs vids)"
  using assms
proof (induction scs arbitrary: i lo vids)
  case Nil
  then show ?case by (simp only: video_loop_Nil ok_return)
next
  case (Cons sc scs)
  let ?b = "band_progress 40 30 i n"
  from Cons.prems(1) have i: "i < n" by simp
  have up: "?b \<le> 70" using band_progress_upper [of 30 i n 40] i by simp
  have mono: "?b \<le> band_progress 40 30 (Suc i) n"
    by (rule band_progress_mono) simp_all
  have rest: "ok ?b 70 (video_loop E job_id images clips resolution fps auds n (Suc i) scs (vids @ [v]))" for v
    using Cons.prems(1) mono up by (intro Cons.IH) simp_all
  have "ok ?b 70 (video_loop E job_id images clips resolution fps auds n i (sc # scs) vids)"
    unfolding video_loop_Cons
    by (rule ok_and_then [OF ok_video_step rest]) simp
  then show ?case
    using Cons.prems(2) by (rule ok_weaken) simp
qed

lemma ok_render_stages:
  "ok 10 88 (render_stages E job_id script images clips title resolution fps)"
proof -
  let ?scenes = "parse_script_with_characters (str_upper E) script"
  have l1: "(15::int) \<le> band_progress 15 20 0 (length ?scenes)"
    by (rule band_progress_lower) simp
  have l2: "(40::int) \<le> band_progress 40 30 0 (length ?scenes)"
    by (rule band_progress_lower) simp
  have tts: "ok 15 35 (tts_loop E job_id (length ?scenes) 0 ?scenes [])"
    by (rule ok_tts_loop) (simp_all add: l1)
  have vid: "ok 40 70 (video_loop E job_id images clips resolution fps auds (length ?scenes) 0 ?scenes [])" for auds
    by (rule ok_video_loop) (simp_all add: l2)
  have p: "ok 88 88 (and_then (generate_preview E f p 15 ''640x360'') (\<lambda>_. return ()))" for f p
    by (intro ok_seq_return ok_generate_preview) simp
  have s7: "ok 88 88 (and_then (emit [SetProgress 88]) (\<lambda>_. and_then (generate_preview E f p 15 ''640x360'') (\<lambda>_. return ())))" for f p
    by (rule ok_and_then [OF ok_emit1 p]) simp
  have s6: "ok 75 88 (and_then (concat_videos E vids f) (\<lambda>_. and_then (emit [SetProgress 88]) (\<lambda>_. and_then (generate_preview E f p 15 ''640x360'') (\<lambda>_. return ()))))" for f p vids
    by (rule ok_and_then [OF ok_concat_videos [of 75 75] s7]) simp_all
  have s5: "ok 75 88 (and_then (emit [SetProgress 75]) (\<lambda>_. and_then (concat_videos E vids f) (\<lambda>_. and_then (emit [SetProgress 88]) (\<lambda>_. and_then (generate_preview E f p 15 ''640x360'') (\<lambda>_. return ())))))" for f p vids
    by (rule ok_and_then [OF ok_emit1 s6]) simp
  have s4: "ok 40 88 (and_then (video_loop E job_id images clips resolution fps auds (length ?scenes) 0 ?scenes []) (\<lambda>vids. and_then (emit [SetProgress 75]) (\<lambda>_. and_then (concat_videos E vids f) (\<lambda>_. and_then (emit [SetProgress 88]) (\<lambda>_. and_then (generate_preview E f p 15 ''640x360'') (\<lambda>_. return ()))))))" for f p auds
    by (rule ok_and_then [OF vid s5]) simp
  have s3: "ok 40 88 (and_then (emit [SetProgress 40]) (\<lambda>_. and_then (video_loop E job_id images clips resolution fps auds (length ?scenes) 0 ?scenes []) (\<lambda>vids. and_then (emit [SetProgress 75]) (\<lambda>_. and_then (concat_videos E vids f) (\<lambda>_. and_then (emit [SetProgress 88]) (\<lambda>_. and_then (generate_preview E f p 15 ''640x360'') (\<lambda>_. return ())))))))" for f p auds
    by (rule ok_and_then [OF ok_emit1 s4]) simp
  have s2: "ok 15 88 (and_then (tts_loop E job_id (length ?scenes) 0 ?scenes []) (\<lambda>auds. and_then (emit [SetProgress 40]) (\<lambda>_. and_then (video_loop E job_id images clips resolution fps auds (length ?scenes) 0 ?scenes []) (\<lambda>vids. and_then (emit [SetProgress 75]) (\<lambda>_. and_then (concat_videos E vids f) (\<lambda>_. and_then (emit [SetProgress 88]) (\<lambda>_. and_then (generate_preview E f p 15 ''640x360'') (\<lambda>_. return ()))))))))" for f p
    by (rule ok_and_then [OF tts s3]) simp
  show ?thesis
    unfolding render_stages_def Let_def
    by (rule ok_and_then [OF ok_emit2 s2]) simp_all
qed

section \<open>The job record along a trace\<close>

lemma run_events_append: "run_events j (a @ b) = run_events (run_events j a) b"
  by (simp add: run_events_def)

lemma run_events_Cons: "run_events j (ev # evs) = run_events (apply_event j ev) evs"
  by (simp add: run_events_def)

lemma run_events_Nil: "run_events j [] = j"
  by (simp add: run_events_def)

lemma running_writes_plain:
  "list_all is_plain a \<Longrightarrow> running_writes Running (a @ b) = progress_writes a @ running_writes Running b"
  by (induction a rule: progress_writes.induct) simp_all

lemma observed_plain:
  assumes "list_all is_plain a" "list_all (\<lambda>n. 0 \<le> n \<and> n < 100) (progress_writes a)"
    "running_record j"
  shows "running_record (run_events j a)
         \<and> set (observed j (a @ b)) \<subseteq> Collect running_record \<union> set (observed (run_events j a) b)"
  using assms
proof (induction a arbitrary: j)
  case Nil
  then show ?case by (simp add: run_events_Nil)
next
  case (Cons ev a)
  show ?case
  proof (cases ev)
    case (SetProgress n)
    with Cons.prems have "running_record (apply_event j ev)"
      by (simp add: running_record_def)
    with Cons.prems SetProgress Cons.IH [of "apply_event j ev"] show ?thesis
      by (simp add: run_events_Cons)
  next
    case (Stage c)
    with Cons.prems Cons.IH [of j] show ?thesis
      by (auto simp: run_events_Cons)
  next
    case (Raise e)
    with Cons.prems Cons.IH [of j] show ?thesis
      by (simp add: run_events_Cons)
  qed (use Cons.prems in simp_all)
qed

lemma no_raise_append: "list_ex is_raise (a @ b) \<longleftrightarrow> list_ex is_raise a \<or> list_ex is_raise b"
  by (simp add: list_ex_iff) blast

lemma unique_raise:
  assumes "\<not> list_ex is_raise a" "\<not> list_ex is_raise c" "a @ Raise e' # c = pre @ Raise e # rest"
  shows "pre = a \<and> e = e' \<and> rest = c"
  using assms
proof (induction a arbitrary: pre)
  case Nil
  then show ?case by (cases pre) (auto simp: list_ex_iff)
next
  case (Cons x a)
  then show ?case by (cases pre) (auto simp: list_ex_iff)
qed

section \<open>The trace of a job\<close>

lemma job_events_Inr:
  assumes "result_of (render_stages E job_id script images clips title resolution fps w) = Inr x"
  shows "job_events E job_id script images clips title resolution fps w =
           prelude @ events_of (render_stages E job_id script images clips title resolution fps w)
           @ done_block title job_id"
  using assms
  by (cases "render_stages E job_id script images clips title resolution fps w")
     (simp add: job_events_def worker_render_movie_def prelude_def done_block_def)

lemma job_events_Inl:
  assumes "result_of (render_stages E job_id script images clips title resolution fps w) = Inl e"
  shows "job_events E job_id script images clips title resolution fps w =
           prelude @ events_of (render_stages E job_id script images clips title resolution fps w)
           @ error_block e"
  using assms
  by (cases "render_stages E job_id script images clips title resolution fps w")
     (simp add: job_events_def worker_render_movie_def prelude_def error_block_def)

lemma render_stages_band:
  "band 10 88 (events_of (render_stages E job_id script images clips title resolution fps w))"
  "raised_last (render_stages E job_id script images clips title resolution fps w)"
  using ok_render_stages [of E job_id script images clips title resolution fps]
  by (simp_all add: ok_def)

lemma band_plain: "band lo hi evs \<Longrightarrow> list_all is_plain evs"
  by (simp add: band_def)

lemma band_sorted: "band lo hi evs \<Longrightarrow> sorted (progress_writes evs)"
  by (simp add: band_def)

lemma band_range: "band lo hi evs \<Longrightarrow> n \<in> set (progress_writes evs) \<Longrightarrow> lo \<le> n \<and> n \<le> hi"
  by (simp add: band_def list_all_iff)

lemma running_after_prelude:
  "running_record (run_events new_job prelude)"
  by (simp add: prelude_def run_events_def new_job_def running_record_def)

lemma running_writes_job:
  "sorted (running_writes Pending (job_events E job_id script images clips title resolution fps w))"
proof -
  let ?r = "render_stages E job_id script images clips title resolution fps w"
  let ?B = "events_of ?r"
  note b = render_stages_band(1) [of E job_id script images clips title resolution fps w]
  have pl: "list_all is_plain ?B" using b by (rule band_plain)
  have so: "sorted (progress_writes ?B)" using b by (rule band_sorted)
  have rg: "\<forall>n\<in>set (progress_writes ?B). 10 \<le> n \<and> n \<le> 88"
    using band_range [OF b] by blast
  have pre: "running_writes Pending (prelude @ ?B @ t) = 1 # 5 # progress_writes ?B @ running_writes Running t" for t
    by (simp add: prelude_def running_writes_plain [OF pl])
  show ?thesis
  proof (cases "result_of ?r")
    case (Inl e)
    show ?thesis
      unfolding job_events_Inl [OF Inl] pre
      using so rg by (auto simp: error_block_def)
  next
    case (Inr x)
    show ?thesis
      unfolding job_events_Inr [OF Inr] pre
      using so rg by (auto simp: done_block_def sorted_append)
  qed
qed

lemma observed_last: "observed j evs \<noteq> [] \<and> last (observed j evs) = run_events j evs"
  by (induction j evs rule: observed.induct) (simp_all add: run_events_def)

lemma final_observed: "run_events j evs \<in> set (observed j evs)"
  using observed_last [of j evs] last_in_set by metis

lemma observed_prelude:
  "observed new_job (prelude @ evs) =
     new_job # new_job\<lparr>status := Running, progress := 1\<rparr> # observed (run_events new_job prelude) evs"
  by (simp add: prelude_def run_events_def)

lemma run_done_block:
  "run_events j (done_block title job_id) =
     j\<lparr>preview := Some (preview_path_of title job_id), job_file := Some (out_file_of title job_id),
       progress := 100, status := Done\<rparr>"
  "observed j (done_block title job_id) = [run_events j (done_block title job_id)]"
  by (simp_all add: done_block_def run_events_def)

lemma run_error_block:
  "run_events j (error_block e) = j\<lparr>status := Error, error := Some e, progress := 0\<rparr>"
  "observed j (error_block e) = [run_events j (error_block e)]"
  by (simp_all add: error_block_def run_events_def)

lemma job_states:
  fixes E :: "'w env"
  defines "r \<equiv> \<lambda>E job_id script images clips title resolution fps (w :: 'w).
              render_stages E job_id script images clips title resolution fps w"
  shows "running_record (run_events new_job
            (prelude @ events_of (r E job_id script images clips title resolution fps w)))"
    and "set (observed new_job
            (prelude @ events_of (r E job_id script images clips title resolution fps w) @ t))
         \<subseteq> {new_job} \<union> Collect running_record
           \<union> set (observed (run_events new_job
                 (prelude @ events_of (r E job_id script images clips title resolution fps w))) t)"
proof -
  let ?B = "events_of (r E job_id script images clips title resolution fps w)"
  have b: "band 10 88 ?B" unfolding r_def by (rule render_stages_band)
  have pl: "list_all is_plain ?B" using b by (rule band_plain)
  have rg: "list_all (\<lambda>n. 0 \<le> n \<and> n < 100) (progress_writes ?B)"
    using band_range [OF b] by (fastforce simp: list_all_iff)
  note o = observed_plain [OF pl rg running_after_prelude]
  show "running_record (run_events new_job (prelude @ ?B))"
    using o by (simp add: run_events_append)
  have "running_record (new_job\<lparr>status := Running, progress := 1\<rparr>)"
    by (simp add: running_record_def new_job_def)
  then show "set (observed new_job (prelude @ ?B @ t))
         \<subseteq> {new_job} \<union> Collect running_record
           \<union> set (observed (run_events new_job (prelude @ ?B)) t)"
    using o [of t] by (auto simp: observed_prelude run_events_append)
qed

lemma observed_shapes:
  assumes "j \<in> set (observed new_job (job_events E job_id script images clips title resolution fps w))"
  shows "record_shape title job_id j"
proof -
  let ?r = "render_stages E job_id script images clips title resolution fps w"
  let ?jB = "run_events new_job (prelude @ events_of ?r)"
  have run: "running_record ?jB" by (rule job_states(1))
  show ?thesis
  proof (cases "result_of ?r")
    case (Inl e)
    from assms have "j = new_job \<or> running_record j \<or> j = run_events ?jB (error_block e)"
      unfolding job_events_Inl [OF Inl]
      using job_states(2) [of E job_id script images clips title resolution fps w "error_block e"]
      by (auto simp: run_error_block(2))
    then show ?thesis
      using run by (auto simp: record_shape_def run_error_block(1) running_record_def)
  next
    case (Inr x)
    from assms have "j = new_job \<or> running_record j \<or> j = run_events ?jB (done_block title job_id)"
      unfolding job_events_Inr [OF Inr]
      using job_states(2) [of E job_id script images clips title resolution fps w "done_block title job_id"]
      by (auto simp: run_done_block(2))
    then show ?thesis
      using run by (auto simp: record_shape_def run_done_block(1) running_record_def)
  qed
qed

section \<open>Sample runs\<close>

lemma sample_events_ok:
  "job_events env_ok ''j1'' ''NARRATOR: Hello world'' [] [] ''movie'' ''1920x1080'' 24 () =
   [Yield, SetStatus Running, SetProgress 1, Yield, SetProgress 5, SetProgress 10, SetProgress 15,
    Stage (GttsSave ''Hello world'' ''tmp/j1_scene_0_audio.mp3'' ''en''),
    SetProgress 35, SetProgress 40,
    Stage (TextSlide ''1920x1080'' ''Hello world'' ''tmp/j1_scene_0_img.png''),
    Stage (ImageToVideo ''tmp/j1_scene_0_img.png'' ''tmp/j1_scene_0_video.mp4'' 4 ''1920x1080'' 24),
    Stage (MuxVideoWithAudio ''tmp/j1_scene_0_video.mp4'' ''tmp/j1_scene_0_audio.mp3''
             ''tmp/j1_scene_0_final.mp4''),
    SetProgress 70, SetProgress 75,
    Stage (ConcatVideos [''tmp/j1_scene_0_final.mp4''] ''outputs/movie_j1.mp4''),
    SetProgress 88,
    Stage (GeneratePreview ''outputs/movie_j1.mp4'' ''outputs/movie_j1_preview.mp4'' 15 ''640x360''),
    SetPreview ''outputs/movie_j1_preview.mp4'', SetFile ''outputs/movie_j1.mp4'',
    SetProgress 100, SetStatus Done]"
  by code_simp

lemma sample_events_mux_fails:
  "job_events env_mux_fails ''j1'' ''NARRATOR: Hello world'' [] [] ''movie'' ''1920x1080'' 24 () =
   [Yield, SetStatus Running, SetProgress 1, Yield, SetProgress 5, SetProgress 10, SetProgress 15,
    Stage (GttsSave ''Hello world'' ''tmp/j1_scene_0_audio.mp3'' ''en''),
    SetProgress 35, SetProgress 40,
    Stage (TextSlide ''1920x1080'' ''Hello world'' ''tmp/j1_scene_0_img.png''),
    Stage (ImageToVideo ''tmp/j1_scene_0_img.png'' ''tmp/j1_scene_0_video.mp4'' 4 ''1920x1080'' 24),
    Stage (MuxVideoWithAudio ''tmp/j1_scene_0_video.mp4'' ''tmp/j1_scene_0_audio.mp3''
             ''tmp/j1_scene_0_final.mp4'')]
   @ Raise ''encoder failed'' # [SetStatus Error, SetError ''encoder failed'', SetProgress 0]"
  by code_simp

lemma parse_empty: "parse_script_with_characters upper [] = []"
  by (simp add: parse_script_with_characters_def splitlines_def parse_lines_Nil)

lemma empty_script_stages:
  "render_stages E job_id [] images clips title resolution fps w =
     (Inl ''No videos to concat'', w,
      [SetProgress 10, SetProgress 15, SetProgress 40, SetProgress 75, Raise ''No videos to concat''])"
  by (simp add: render_stages_def parse_empty outcome_eq_iff and_then_result and_then_events
      and_then_world concat_videos_def)

lemma empty_script_events:
  "job_events E job_id [] images clips title resolution fps w =
     [Yield, SetStatus Running, SetProgress 1, Yield, SetProgress 5, SetProgress 10, SetProgress 15,
      SetProgress 40, SetProgress 75, Raise ''No videos to concat'',
      SetStatus Error, SetError ''No videos to concat'', SetProgress 0]"
  by (simp add: job_events_def worker_render_movie_def empty_script_stages)

section \<open>Failure of a stage\<close>

text \<open>
  C1. When anything raises an exception \<open>e\<close> inside the \<open>try\<close> block of a run, a stage
  call or the guard of \<open>concat_videos\<close>, the only events after it are the three writes of
  the handler: status \<open>error\<close>, the error message \<open>str(e)\<close>, progress 0. No stage is called
  after the exception, and the job record at the end of the run has status \<open>error\<close>, the
  message of that exception, progress 0, and neither a file nor a preview.
\<close>

theorem stage_failure_sets_error:
  assumes "job_events E job_id script images clips title resolution fps w = pre @ Raise e # rest"
  shows "rest = [SetStatus Error, SetError e, SetProgress 0]
       \<and> list_all (\<lambda>ev. case ev of Stage c \<Rightarrow> False | _ \<Rightarrow> True) rest
       \<and> status (run_events new_job (job_events E job_id script images clips title resolution fps w)) = Error
       \<and> error (run_events new_job (job_events E job_id script images clips title resolution fps w)) = Some e
       \<and> progress (run_events new_job (job_events E job_id script images clips title resolution fps w)) = 0
       \<and> job_file (run_events new_job (job_events E job_id script images clips title resolution fps w)) = None
       \<and> preview (run_events new_job (job_events E job_id script images clips title resolution fps w)) = None"
proof -
  let ?r = "render_stages E job_id script images clips title resolution fps w"
  let ?B = "events_of ?r"
  let ?T = "job_events E job_id script images clips title resolution fps w"
  note rl = render_stages_band(2) [of E job_id script images clips title resolution fps w]
  have np: "\<not> list_ex is_raise prelude" by (simp add: prelude_def)
  show ?thesis
  proof (cases "result_of ?r")
    case (Inr x)
    with rl have "\<not> list_ex is_raise ?B" by (simp add: raised_last_def)
    then have "\<not> list_ex is_raise ?T"
      unfolding job_events_Inr [OF Inr] using np
      by (simp add: no_raise_append done_block_def)
    with assms show ?thesis by (simp add: no_raise_append)
  next
    case (Inl e')
    with rl have B: "?B \<noteq> []" "last ?B = Raise e'" "\<not> list_ex is_raise (butlast ?B)"
      by (simp_all add: raised_last_def)
    then have Bs: "?B = butlast ?B @ [Raise e']"
      using append_butlast_last_id [of ?B] by simp
    have T: "?T = (prelude @ butlast ?B) @ Raise e' # error_block e'"
      unfolding job_events_Inl [OF Inl] using Bs by (metis append.assoc append_Cons append_Nil)
    have "\<not> list_ex is_raise (prelude @ butlast ?B)" "\<not> list_ex is_raise (error_block e')"
      using np B(3) by (simp_all add: no_raise_append error_block_def)
    from unique_raise [OF this, of e' pre e rest] T assms
    have u: "pre = prelude @ butlast ?B" "e = e'" "rest = error_block e'"
      by simp_all
    have run: "running_record (run_events new_job (prelude @ ?B))"
      by (rule job_states(1))
    have fin: "run_events new_job ?T
        = (run_events new_job (prelude @ ?B))\<lparr>status := Error, error := Some e', progress := 0\<rparr>"
      unfolding job_events_Inl [OF Inl]
      using run_events_append [of new_job "prelude @ ?B" "error_block e'"]
      by (simp add: run_error_block(1))
    show ?thesis
      unfolding fin using u run by (simp add: error_block_def running_record_def)
  qed
qed

theorem stage_failure_sets_error_witness:
  "job_events env_mux_fails ''j1'' ''NARRATOR: Hello world'' [] [] ''movie'' ''1920x1080'' 24 () =
   [Yield, SetStatus Running, SetProgress 1, Yield, SetProgress 5, SetProgress 10, SetProgress 15,
    Stage (GttsSave ''Hello world'' ''tmp/j1_scene_0_audio.mp3'' ''en''),
    SetProgress 35, SetProgress 40,
    Stage (TextSlide ''1920x1080'' ''Hello world'' ''tmp/j1_scene_0_img.png''),
    Stage (ImageToVideo ''tmp/j1_scene_0_img.png'' ''tmp/j1_scene_0_video.mp4'' 4 ''1920x1080'' 24),
    Stage (MuxVideoWithAudio ''tmp/j1_scene_0_video.mp4'' ''tmp/j1_scene_0_audio.mp3''
             ''tmp/j1_scene_0_final.mp4'')]
   @ Raise ''encoder failed'' # [SetStatus Error, SetError ''encoder failed'', SetProgress 0]
   \<and> status (run_events new_job
        (job_events env_mux_fails ''j1'' ''NARRATOR: Hello world'' [] [] ''movie'' ''1920x1080'' 24 ())) = Error
   \<and> error (run_events new_job
        (job_events env_mux_fails ''j1'' ''NARRATOR: Hello world'' [] [] ''movie'' ''1920x1080'' 24 ()))
      = Some ''encoder failed''
   \<and> progress (run_events new_job
        (job_events env_mux_fails ''j1'' ''NARRATOR: Hello world'' [] [] ''movie'' ''1920x1080'' 24 ())) = 0"
  using stage_failure_sets_error [OF sample_events_mux_fails] sample_events_mux_fails
  by blast

section \<open>Progress and artifacts\<close>

lemma out_file_nonempty: "out_file_of title job_id \<noteq> []" "preview_path_of title job_id \<noteq> []"
  by (auto simp: out_file_of_def preview_path_of_def path_join_def OUTPUT_DIR_def)

text \<open>
  C2. The values written to \<open>progress\<close> while the status is \<open>running\<close> never decrease
  along a run. In every job record that can be read, before the run, while a stage of the
  run is executing and after the run, \<open>progress\<close> is 100 exactly when the status is
  \<open>done\<close>; the record at the end of the run is one of these.
\<close>

theorem progress_monotone:
  "sorted (running_writes Pending (job_events E job_id script images clips title resolution fps w))
   \<and> (\<forall>j\<in>set (observed new_job (job_events E job_id script images clips title resolution fps w)).
         progress j = 100 \<longleftrightarrow> status j = Done)
   \<and> run_events new_job (job_events E job_id script images clips title resolution fps w)
       \<in> set (observed new_job (job_events E job_id script images clips title resolution fps w))"
proof -
  have "progress j = 100 \<longleftrightarrow> status j = Done"
    if "j \<in> set (observed new_job (job_events E job_id script images clips title resolution fps w))" for j
    using observed_shapes [OF that]
    by (auto simp: record_shape_def running_record_def new_job_def)
  then show ?thesis
    using running_writes_job [of E job_id script images clips title resolution fps w]
      final_observed [of new_job "job_events E job_id script images clips title resolution fps w"]
    by blast
qed

theorem progress_monotone_witness:
  "running_writes Pending
     (job_events env_ok ''j1'' ''NARRATOR: Hello world'' [] [] ''movie'' ''1920x1080'' 24 ())
     = [1, 5, 10, 15, 35, 40, 70, 75, 88, 100]
   \<and> sorted [1, 5, 10, 15, 35, 40, 70, 75, 88, 100 :: int]
   \<and> run_events new_job
        (job_events env_ok ''j1'' ''NARRATOR: Hello world'' [] [] ''movie'' ''1920x1080'' 24 ())
      = \<lparr>status = Done, progress = 100, job_file = Some ''outputs/movie_j1.mp4'',
         preview = Some ''outputs/movie_j1_preview.mp4'', error = None\<rparr>
   \<and> (progress (run_events new_job
        (job_events env_ok ''j1'' ''NARRATOR: Hello world'' [] [] ''movie'' ''1920x1080'' 24 ())) = 100)
     = (status (run_events new_job
        (job_events env_ok ''j1'' ''NARRATOR: Hello world'' [] [] ''movie'' ''1920x1080'' 24 ())) = Done)"
proof -
  let ?T = "job_events env_ok ''j1'' ''NARRATOR: Hello world'' [] [] ''movie'' ''1920x1080'' 24 ()"
  have w: "running_writes Pending ?T = [1, 5, 10, 15, 35, 40, 70, 75, 88, 100]"
    unfolding sample_events_ok by simp
  have f: "run_events new_job ?T
      = \<lparr>status = Done, progress = 100, job_file = Some ''outputs/movie_j1.mp4'',
         preview = Some ''outputs/movie_j1_preview.mp4'', error = None\<rparr>"
    unfolding sample_events_ok by (simp add: run_events_def new_job_def)
  note t = progress_monotone [of env_ok "''j1''" "''NARRATOR: Hello world''" "[]" "[]" "''movie''"
      "''1920x1080''" 24 "()"]
  from t have s: "sorted (running_writes Pending ?T)" by blast
  from t have "(progress (run_events new_job ?T) = 100) = (status (run_events new_job ?T) = Done)"
    by blast
  with s w f show ?thesis by simp
qed

text \<open>
  C3. In every job record that can be read, the file path is present exactly when the status
  is \<open>done\<close>, and so is the preview path; both are then the paths of lines 261 and 267 and
  the two retrieval endpoints serve them. For a record whose status is not \<open>done\<close> the
  endpoints answer 404 with \<open>file not ready\<close> and \<open>preview not ready\<close>. The paths are
  written together with the status \<open>done\<close>: the trace either ends with the four writes of
  lines 269 to 273, with no stage call between them and no such write before, or it has no
  such write at all.
\<close>

theorem artifact_paths:
  "(\<forall>j\<in>set (observed new_job (job_events E job_id script images clips title resolution fps w)).
      (job_file j \<noteq> None \<longleftrightarrow> status j = Done) \<and> (preview j \<noteq> None \<longleftrightarrow> status j = Done)
      \<and> (status j = Done \<longrightarrow>
            job_file j = Some (out_file_of title job_id)
            \<and> preview j = Some (preview_path_of title job_id)
            \<and> download_endpoint (JOB_STORE(job_id \<mapsto> j)) job_id = FileResponse (out_file_of title job_id)
            \<and> preview_endpoint (JOB_STORE(job_id \<mapsto> j)) job_id
                = FileResponse (preview_path_of title job_id))
      \<and> (status j \<noteq> Done \<longrightarrow>
            download_endpoint (JOB_STORE(job_id \<mapsto> j)) job_id = JSONResponse 404 ''file not ready''
            \<and> preview_endpoint (JOB_STORE(job_id \<mapsto> j)) job_id
                = JSONResponse 404 ''preview not ready''))
   \<and> run_events new_job (job_events E job_id script images clips title resolution fps w)
       \<in> set (observed new_job (job_events E job_id script images clips title resolution fps w))
   \<and> ((\<exists>pre. job_events E job_id script images clips title resolution fps w
               = pre @ done_block title job_id
             \<and> \<not> list_ex sets_artifact pre)
      \<or> \<not> list_ex sets_artifact (job_events E job_id script images clips title resolution fps w))"
proof -
  let ?T = "job_events E job_id script images clips title resolution fps w"
  let ?r = "render_stages E job_id script images clips title resolution fps w"
  have A: "(job_file j \<noteq> None \<longleftrightarrow> status j = Done) \<and> (preview j \<noteq> None \<longleftrightarrow> status j = Done)
      \<and> (status j = Done \<longrightarrow>
            job_file j = Some (out_file_of title job_id)
            \<and> preview j = Some (preview_path_of title job_id)
            \<and> download_endpoint (JOB_STORE(job_id \<mapsto> j)) job_id = FileResponse (out_file_of title job_id)
            \<and> preview_endpoint (JOB_STORE(job_id \<mapsto> j)) job_id
                = FileResponse (preview_path_of title job_id))
      \<and> (status j \<noteq> Done \<longrightarrow>
            download_endpoint (JOB_STORE(job_id \<mapsto> j)) job_id = JSONResponse 404 ''file not ready''
            \<and> preview_endpoint (JOB_STORE(job_id \<mapsto> j)) job_id
                = JSONResponse 404 ''preview not ready'')"
    if "j \<in> set (observed new_job ?T)" for j
    using observed_shapes [OF that]
    by (auto simp: record_shape_def running_record_def new_job_def download_endpoint_def
        preview_endpoint_def truthy_def out_file_nonempty)
  have pl: "list_all is_plain (events_of ?r)"
    using render_stages_band(1) by (rule band_plain)
  have q: "\<not> list_ex sets_artifact (prelude @ events_of ?r)"
  proof -
    have "is_plain ev \<Longrightarrow> \<not> sets_artifact ev" for ev by (cases ev) simp_all
    with pl have "\<not> list_ex sets_artifact (events_of ?r)"
      by (auto simp: list_ex_iff list_all_iff)
    then show ?thesis by (simp add: prelude_def)
  qed
  have C: "(\<exists>pre. ?T = pre @ done_block title job_id \<and> \<not> list_ex sets_artifact pre)
      \<or> \<not> list_ex sets_artifact ?T"
  proof (cases "result_of ?r")
    case (Inl e)
    have "\<not> list_ex sets_artifact ?T"
      unfolding job_events_Inl [OF Inl] using q by (simp add: error_block_def)
    then show ?thesis ..
  next
    case (Inr x)
    have "?T = (prelude @ events_of ?r) @ done_block title job_id"
      unfolding job_events_Inr [OF Inr] by simp
    with q show ?thesis by blast
  qed
  from A C final_observed [of new_job ?T] show ?thesis by blast
qed


theorem artifact_paths_witness:
  "\<lparr>status = Running, progress = 75, job_file = None, preview = None, error = None\<rparr>
     \<in> set (observed new_job
          (job_events env_ok ''j1'' ''NARRATOR: Hello world'' [] [] ''movie'' ''1920x1080'' 24 ()))
   \<and> download_endpoint
        (Map.empty(''j1'' \<mapsto> \<lparr>status = Running, progress = 75, job_file = None, preview = None,
                                error = None\<rparr>)) ''j1''
      = JSONResponse 404 ''file not ready''
   \<and> \<lparr>status = Done, progress = 100, job_file = Some ''outputs/movie_j1.mp4'',
        preview = Some ''outputs/movie_j1_preview.mp4'', error = None\<rparr>
     \<in> set (observed new_job
          (job_events env_ok ''j1'' ''NARRATOR: Hello world'' [] [] ''movie'' ''1920x1080'' 24 ()))
   \<and> download_endpoint
        (Map.empty(''j1'' \<mapsto> \<lparr>status = Done, progress = 100, job_file = Some ''outputs/movie_j1.mp4'',
                                preview = Some ''outputs/movie_j1_preview.mp4'', error = None\<rparr>)) ''j1''
      = FileResponse ''outputs/movie_j1.mp4''"
proof -
  let ?T = "job_events env_ok ''j1'' ''NARRATOR: Hello world'' [] [] ''movie'' ''1920x1080'' 24 ()"
  let ?run = "\<lparr>status = Running, progress = 75, job_file = None, preview = None, error = None\<rparr>"
  let ?done = "\<lparr>status = Done, progress = 100, job_file = Some ''outputs/movie_j1.mp4'',
        preview = Some ''outputs/movie_j1_preview.mp4'', error = None\<rparr>"
  have m1: "?run \<in> set (observed new_job ?T)"
    unfolding sample_events_ok by (simp add: new_job_def)
  have m2: "?done \<in> set (observed new_job ?T)"
    unfolding sample_events_ok by (simp add: new_job_def)
  have p: "out_file_of ''movie'' ''j1'' = ''outputs/movie_j1.mp4''"
    "preview_path_of ''movie'' ''j1'' = ''outputs/movie_j1_preview.mp4''"
    by (simp_all add: out_file_of_def preview_path_of_def path_join_def OUTPUT_DIR_def)
  note t = artifact_paths [of env_ok "''j1''" "''NARRATOR: Hello world''" "[]" "[]" "''movie''"
      "''1920x1080''" 24 "()" Map.empty, THEN conjunct1]
  from t [THEN bspec, OF m1]
  have d1: "download_endpoint (Map.empty(''j1'' \<mapsto> ?run)) ''j1'' = JSONResponse 404 ''file not ready''"
    by simp
  from t [THEN bspec, OF m2]
  have d2: "download_endpoint (Map.empty(''j1'' \<mapsto> ?done)) ''j1'' = FileResponse ''outputs/movie_j1.mp4''"
    by (simp add: p)
  from m1 d1 m2 d2 show ?thesis by blast
qed

section \<open>The empty script\<close>

text \<open>
  C6, as the code has it. The parser returns no scene for the empty script. The run then
  calls no stage: both loops are empty, \<open>concat_videos\<close> is called with no video and its
  guard raises \<open>No videos to concat\<close>, which the handler of the worker catches. The job
  ends with the status \<open>error\<close>, that message and progress 0.
\<close>

theorem empty_script_run:
  "parse_script_with_characters upper [] = []
   \<and> job_events E job_id [] images clips title resolution fps w =
       [Yield, SetStatus Running, SetProgress 1, Yield, SetProgress 5, SetProgress 10,
        SetProgress 15, SetProgress 40, SetProgress 75, Raise ''No videos to concat'',
        SetStatus Error, SetError ''No videos to concat'', SetProgress 0]
   \<and> run_events new_job (job_events E job_id [] images clips title resolution fps w) =
       \<lparr>status = Error, progress = 0, job_file = None, preview = None,
        error = Some ''No videos to concat''\<rparr>"
  by (simp add: parse_empty empty_script_events run_events_def new_job_def)

text \<open>The job of the empty script ends with the status \<open>error\<close>.\<close>

theorem empty_script_counterexample:
  "parse_script_with_characters upper_latin1 [] = []
   \<and> \<not> status (run_events new_job
          (job_events env_ok ''j1'' [] [] [] ''movie'' ''1920x1080'' 24 ())) \<noteq> Error"
  by (simp add: parse_empty empty_script_events run_events_def new_job_def)

theorem empty_script_run_witness:
  "status (run_events new_job
     (job_events env_ok ''j1'' [] [''a.png''] [] ''movie'' ''1920x1080'' 24 ())) = Error
   \<and> error (run_events new_job
     (job_events env_ok ''j1'' [] [''a.png''] [] ''movie'' ''1920x1080'' 24 ()))
     = Some ''No videos to concat''"
  using empty_script_run [of upper_latin1 env_ok "''j1''" "[''a.png'']" "[]" "''movie''" "''1920x1080''" 24 "()",
      THEN conjunct2, THEN conjunct2]
  by simp

end
